theory Spec2Isabelle
  imports Complex_Main "HOL-Library.Multiset"
begin

section \<open>Ranks\<close>

text \<open>
  Modelled from the spec: the file \<^verbatim>\<open>rank.go\<close> (the type \<^verbatim>\<open>Rank\<close>, its constants, the
  label table behind \<^verbatim>\<open>NewRank\<close>, the method \<^verbatim>\<open>Index\<close>, the struct \<^verbatim>\<open>rankData\<close>, the
  constructor \<^verbatim>\<open>ranksData\<close> and the interface \<^verbatim>\<open>Hierarchy\<close>) is not among the sources.
  The spec describes \<^verbatim>\<open>Rank\<close> as an ordered enumeration with the two sentinels
  \<^verbatim>\<open>Empty\<close> and \<^verbatim>\<open>Unknown\<close>, the six standard ranks and intermediate levels, ordered
  \<^verbatim>\<open>Empire > Kingdom > Phylum > ... > Genus > ...\<close>, the sentinels lowest. The constructors
  are listed in ascending order; \<^verbatim>\<open>Empty\<close> is the zero value of the Go type.
\<close>

datatype Rank =
  Empty | Unknown | Species | SubGenus | Genus | Tribe | SubFamily | Family | SuperFamily
  | SubOrder | Order | InfraClass | SubClass | Class | Phylum | Kingdom | Empire

text \<open>
  Modelled from the spec: the integer behind a \<^verbatim>\<open>Rank\<close> (the Go type is derived from
  \<^verbatim>\<open>int\<close>), which gives the comparisons \<^verbatim>\<open><=\<close> of \<^verbatim>\<open>stats.go\<close> their meaning.
\<close>

fun rankNum :: "Rank \<Rightarrow> nat" where
  "rankNum Empty = 0"
| "rankNum Unknown = 1"
| "rankNum Species = 2"
| "rankNum SubGenus = 3"
| "rankNum Genus = 4"
| "rankNum Tribe = 5"
| "rankNum SubFamily = 6"
| "rankNum Family = 7"
| "rankNum SuperFamily = 8"
| "rankNum SubOrder = 9"
| "rankNum Order = 10"
| "rankNum InfraClass = 11"
| "rankNum SubClass = 12"
| "rankNum Class = 13"
| "rankNum Phylum = 14"
| "rankNum Kingdom = 15"
| "rankNum Empire = 16"

instantiation Rank :: linorder
begin

definition less_eq_Rank :: "Rank \<Rightarrow> Rank \<Rightarrow> bool" where
  "less_eq_Rank a b = (rankNum a \<le> rankNum b)"

definition less_Rank :: "Rank \<Rightarrow> Rank \<Rightarrow> bool" where
  "less_Rank a b = (rankNum a < rankNum b)"

instance
proof
  fix x y z :: Rank
  show "(x < y) = (x \<le> y \<and> \<not> y \<le> x)"
    by (auto simp: less_eq_Rank_def less_Rank_def)
  show "x \<le> x"
    by (simp add: less_eq_Rank_def)
  show "x \<le> y \<Longrightarrow> y \<le> z \<Longrightarrow> x \<le> z"
    by (simp add: less_eq_Rank_def)
  show "x \<le> y \<Longrightarrow> y \<le> x \<Longrightarrow> x = y"
    unfolding less_eq_Rank_def by (cases x; cases y; simp)
  show "x \<le> y \<or> y \<le> x"
    by (auto simp: less_eq_Rank_def)
qed

end

text \<open>
  Modelled from the spec: the fixed, case-sensitive table of rank labels. A label that is
  not in the table classifies as \<^verbatim>\<open>Unknown\<close>; the label \<^verbatim>\<open>unranked\<close> is in the table and
  is not a comparable rank (the spec's fifty-fifty scenario ends with an empty main taxon
  although every name sits under the same unranked clade).
\<close>

definition ranksMap :: "(string \<times> Rank) list" where
  "ranksMap =
    [(''empire'', Empire), (''kingdom'', Kingdom), (''phylum'', Phylum), (''class'', Class),
     (''subclass'', SubClass), (''infraclass'', InfraClass), (''order'', Order),
     (''suborder'', SubOrder), (''superfamily'', SuperFamily), (''family'', Family),
     (''subfamily'', SubFamily), (''tribe'', Tribe), (''genus'', Genus),
     (''subgenus'', SubGenus), (''species'', Species), (''unranked'', Unknown)]"

definition NewRank :: "string \<Rightarrow> Rank" where
  "NewRank s = (case map_of ranksMap s of Some r \<Rightarrow> r | None \<Rightarrow> Unknown)"

text \<open>
  Modelled from the spec: the position of a rank's bucket in the collection of buckets.
  The buckets are stored from the most general rank to the most specific one (the resolver
  reads them in reverse to go from specific to general), the sentinels last.
\<close>

definition Index :: "Rank \<Rightarrow> nat" where
  "Index r = 16 - rankNum r"

section \<open>Data\<close>

text \<open>The struct \<^verbatim>\<open>Taxon\<close>; its embedded \<^verbatim>\<open>Rank\<close> is the last field.\<close>

record Taxon =
  ID :: string
  Name :: string
  RankStr :: string
  Rank :: Rank

text \<open>The zero value \<^verbatim>\<open>Taxon{}\<close>.\<close>

definition emptyTaxon :: Taxon where
  "emptyTaxon = \<lparr>ID = [], Name = [], RankStr = [], Rank = Empty\<rparr>"

text \<open>
  The struct \<^verbatim>\<open>TaxonDist\<close>. Its fields \<^verbatim>\<open>NamesNum\<close> and \<^verbatim>\<open>Name\<close> are written
  \<open>DistNamesNum\<close> and \<open>DistName\<close>, apart from the fields of the same name of
  \<^verbatim>\<open>Stats\<close> and \<^verbatim>\<open>Taxon\<close>. The type \<^verbatim>\<open>float32\<close> is idealised as the rationals: a
  quotient \<^verbatim>\<open>float32(v) / float32(n)\<close> is the exact quotient, without rounding. Counts are
  natural numbers: they are bounded by the number of taxon entries of the input, so the
  64-bit \<^verbatim>\<open>int\<close> of the source never wraps.
\<close>

record TaxonDist =
  DistNamesNum :: nat
  DistName :: string
  Percentage :: rat

text \<open>
  The struct \<^verbatim>\<open>Stats\<close>. The six fields \<^verbatim>\<open>Kingdom\<close>, ..., \<^verbatim>\<open>Genus\<close> carry the suffix
  \<open>Taxon\<close>, apart from the rank constants of the same name.
\<close>

record Stats =
  NamesNum :: nat
  Kingdoms :: "TaxonDist list"
  KingdomTaxon :: Taxon
  KingdomPercentage :: rat
  PhylumTaxon :: Taxon
  PhylumPercentage :: rat
  ClassTaxon :: Taxon
  ClassPercentage :: rat
  OrderTaxon :: Taxon
  OrderPercentage :: rat
  FamilyTaxon :: Taxon
  FamilyPercentage :: rat
  GenusTaxon :: Taxon
  GenusPercentage :: rat
  MainTaxon :: Taxon
  MainTaxonPercentage :: rat

text \<open>The zero value \<^verbatim>\<open>Stats{}\<close>.\<close>

definition emptyStats :: Stats where
  "emptyStats =
    \<lparr>NamesNum = 0, Kingdoms = [],
     KingdomTaxon = emptyTaxon, KingdomPercentage = 0,
     PhylumTaxon = emptyTaxon, PhylumPercentage = 0,
     ClassTaxon = emptyTaxon, ClassPercentage = 0,
     OrderTaxon = emptyTaxon, OrderPercentage = 0,
     FamilyTaxon = emptyTaxon, FamilyPercentage = 0,
     GenusTaxon = emptyTaxon, GenusPercentage = 0,
     MainTaxon = emptyTaxon, MainTaxonPercentage = 0\<rparr>"

text \<open>
  Modelled from the spec: the interface \<^verbatim>\<open>Hierarchy\<close>, whose one method \<^verbatim>\<open>Taxons\<close>
  returns the taxa of one name, from the most general to the most specific.
\<close>

type_synonym Hierarchy = "Taxon list"

text \<open>
  Modelled from the spec: the struct \<^verbatim>\<open>rankData\<close> (its declaration is in \<^verbatim>\<open>rank.go\<close>; the
  fields and their use are those of \<^verbatim>\<open>stats.go\<close>). The field \<^verbatim>\<open>data\<close> is a Go map keyed
  by the whole \<^verbatim>\<open>Taxon\<close> struct. It is kept as an association list with one entry per
  key, in the order the keys were first inserted; this order is a matter of
  representation only, see \<open>rangeOrder\<close> below.
\<close>

record rankData =
  rank :: Rank
  data :: "(Taxon \<times> nat) list"
  total :: nat

text \<open>
  Modelled from the spec: \<^verbatim>\<open>ranksData\<close> returns one empty bucket per rank, the sentinels
  included, at the position \<open>Index\<close> gives its rank.
\<close>

definition allRanks :: "Rank list" where
  "allRanks =
    [Empire, Kingdom, Phylum, Class, SubClass, InfraClass, Order, SubOrder, SuperFamily,
     Family, SubFamily, Tribe, Genus, SubGenus, Species, Unknown, Empty]"

definition ranksData :: "rankData list" where
  "ranksData = map (\<lambda>r. \<lparr>rank = r, data = [], total = 0\<rparr>) allRanks"

text \<open>
  Go visits the entries of a map in an order that the language leaves open and that may
  change from one \<^verbatim>\<open>range\<close> loop to the next. Every function that ranges over a map
  takes the order its loop follows as a parameter: a \<open>rangeOrder\<close> rearranges the
  entries of the map, and it is admissible when it returns a permutation of them.
\<close>

type_synonym rangeOrder = "(Taxon \<times> nat) list \<Rightarrow> (Taxon \<times> nat) list"

definition admissible :: "rangeOrder \<Rightarrow> bool" where
  "admissible ord = (\<forall>es. mset (ord es) = mset es)"

section \<open>The functions of stats.go\<close>

subsection \<open>extractTaxons\<close>

text \<open>
  The inner loop of \<^verbatim>\<open>extractTaxons\<close> over the taxa of one item: it fills the ranks that
  are still \<^verbatim>\<open>Empty\<close> and raises the flag \<^verbatim>\<open>genusOrLess\<close>. It returns the taxa as they
  stand after the loop, and the flag.
\<close>

fun classifyLoop :: "Taxon list \<Rightarrow> bool \<Rightarrow> Taxon list \<times> bool" where
  "classifyLoop [] genusOrLess = ([], genusOrLess)"
| "classifyLoop (t # ts) genusOrLess =
    (let t' = (if Rank t = Empty then t\<lparr>Rank := NewRank (RankStr t)\<rparr> else t);
         g = (if \<not> genusOrLess \<and> Rank t' \<noteq> Unknown \<and> Rank t' \<le> Genus then True else genusOrLess);
         (ts', g') = classifyLoop ts g
     in (t' # ts', g'))"

text \<open>The outer loop, with the slice \<^verbatim>\<open>res\<close> it appends to.\<close>

fun extractLoop :: "Hierarchy list \<Rightarrow> Taxon list list \<Rightarrow> Taxon list list" where
  "extractLoop [] res = res"
| "extractLoop (h # hs) res =
    (let (taxons, genusOrLess) = classifyLoop h False
     in extractLoop hs (if genusOrLess then res @ [taxons] else res))"

definition extractTaxons :: "Hierarchy list \<Rightarrow> Taxon list list" where
  "extractTaxons h = extractLoop h []"

subsection \<open>Aggregation\<close>

text \<open>The statement \<^verbatim>\<open>data[k]++\<close> on a map: a missing key starts from zero.\<close>

fun incr :: "Taxon \<Rightarrow> (Taxon \<times> nat) list \<Rightarrow> (Taxon \<times> nat) list" where
  "incr k [] = [(k, 1)]"
| "incr k ((k', v) # es) = (if k' = k then (k', v + 1) # es else (k', v) # incr k es)"

text \<open>The two statements of the loop body in \<^verbatim>\<open>New\<close>, on the bucket they address.\<close>

definition bump :: "Taxon \<Rightarrow> rankData \<Rightarrow> rankData" where
  "bump t rd = rd\<lparr>data := incr t (data rd), total := total rd + 1\<rparr>"

text \<open>The inner loop of \<^verbatim>\<open>New\<close> over the taxa of one item.\<close>

fun populateItem :: "Taxon list \<Rightarrow> rankData list \<Rightarrow> rankData list" where
  "populateItem [] ranks = ranks"
| "populateItem (t # cs) ranks =
    (let rankIdx = Index (Rank t)
     in populateItem cs (ranks[rankIdx := bump t (ranks ! rankIdx)]))"

text \<open>The outer loop of \<^verbatim>\<open>New\<close> over the retained items.\<close>

fun populate :: "Taxon list list \<Rightarrow> rankData list \<Rightarrow> rankData list" where
  "populate [] ranks = ranks"
| "populate (cs # taxons) ranks = populate taxons (populateItem cs ranks)"

subsection \<open>removeEmptyRanks\<close>

fun removeLoop :: "rankData list \<Rightarrow> rankData list \<Rightarrow> rankData list" where
  "removeLoop [] res = res"
| "removeLoop (rd # ranks) res =
    (if total rd = 0 then removeLoop ranks res else removeLoop ranks (res @ [rd]))"

definition removeEmptyRanks :: "rankData list \<Rightarrow> rankData list" where
  "removeEmptyRanks ranks = removeLoop ranks []"

subsection \<open>maxTaxon, getTaxDist, isMaxTaxon\<close>

text \<open>
  The loop of \<^verbatim>\<open>maxTaxon\<close> over the entries in the order it meets them, with the
  variables \<^verbatim>\<open>max\<close> and \<^verbatim>\<open>cld\<close>.
\<close>

fun maxLoop :: "(Taxon \<times> nat) list \<Rightarrow> nat \<Rightarrow> Taxon \<Rightarrow> nat \<times> Taxon" where
  "maxLoop [] mx cld = (mx, cld)"
| "maxLoop ((k, v) # es) mx cld = (if v > mx then maxLoop es v k else maxLoop es mx cld)"

text \<open>
  \<^verbatim>\<open>maxTaxon\<close> with the order of its loop. Its quotient is the exact one; for
  \<^verbatim>\<open>namesNum = 0\<close>, where the Go quotient is not a number, the quotient of the model is 0.
  \<^verbatim>\<open>New\<close> never calls it with that value (see the section on divisions).
\<close>

definition maxTaxon :: "rangeOrder \<Rightarrow> nat \<Rightarrow> rankData \<Rightarrow> Taxon \<times> rat" where
  "maxTaxon ord namesNum rd =
    (let (mx, cld) = maxLoop (ord (data rd)) 0 emptyTaxon;
         res = (if Name cld \<noteq> [] then cld else emptyTaxon)
     in (res, of_nat mx / of_nat namesNum))"

text \<open>
  \<^verbatim>\<open>getTaxDist\<close> with the order of its loop: one entry per key, in the order the loop meets
  the keys.
\<close>

definition getTaxDist :: "rangeOrder \<Rightarrow> nat \<Rightarrow> rankData \<Rightarrow> TaxonDist list" where
  "getTaxDist ord namesNum tx =
    map (\<lambda>(k, v). \<lparr>DistNamesNum = v, DistName = Name k,
                   Percentage = of_nat v / of_nat namesNum\<rparr>)
      (ord (data tx))"

text \<open>The loop of \<^verbatim>\<open>isMaxTaxon\<close>, with its counter.\<close>

fun countLoop :: "TaxonDist list \<Rightarrow> rat \<Rightarrow> nat \<Rightarrow> nat" where
  "countLoop [] percentage cnt = cnt"
| "countLoop (c # cd) percentage cnt =
    countLoop cd percentage (if Percentage c = percentage then cnt + 1 else cnt)"

definition isMaxTaxon :: "TaxonDist list \<Rightarrow> rat \<Rightarrow> bool" where
  "isMaxTaxon cd percentage = (countLoop cd percentage 0 = 1)"

subsection \<open>calcStats\<close>

text \<open>The variables of \<^verbatim>\<open>calcStats\<close> that live across the iterations of its loop.\<close>

record calcVars =
  res :: Stats
  txnDistr :: "TaxonDist list"
  mainTaxon :: Taxon
  txnPCent :: rat
  foundMainTaxon :: bool

text \<open>The first \<^verbatim>\<open>switch\<close> of the loop body: the case list of the six standard ranks.\<close>

definition standardRank :: "Rank \<Rightarrow> bool" where
  "standardRank r =
    (r = Kingdom \<or> r = Phylum \<or> r = Class \<or> r = Order \<or> r = Family \<or> r = Genus)"

text \<open>
  The second \<^verbatim>\<open>switch\<close> of the loop body, on the rank of \<^verbatim>\<open>maxTx\<close>: it writes the
  fields of the result \<^verbatim>\<open>res\<close>.
\<close>

definition assignRank :: "Taxon \<Rightarrow> rat \<Rightarrow> TaxonDist list \<Rightarrow> Stats \<Rightarrow> Stats" where
  "assignRank maxTx maxPcent distr r =
    (case Rank maxTx of
       Kingdom \<Rightarrow> r\<lparr>KingdomTaxon := maxTx, KingdomPercentage := maxPcent, Kingdoms := distr\<rparr>
     | Phylum \<Rightarrow> r\<lparr>PhylumTaxon := maxTx, PhylumPercentage := maxPcent\<rparr>
     | Class \<Rightarrow> r\<lparr>ClassTaxon := maxTx, ClassPercentage := maxPcent\<rparr>
     | Order \<Rightarrow> r\<lparr>OrderTaxon := maxTx, OrderPercentage := maxPcent\<rparr>
     | Family \<Rightarrow> r\<lparr>FamilyTaxon := maxTx, FamilyPercentage := maxPcent\<rparr>
     | Genus \<Rightarrow> r\<lparr>GenusTaxon := maxTx, GenusPercentage := maxPcent\<rparr>
     | _ \<Rightarrow> r)"

text \<open>
  One iteration of the loop of \<^verbatim>\<open>calcStats\<close>, on the bucket \<^verbatim>\<open>ranks[reverseIdx]\<close>. The two
  orders are those of the \<^verbatim>\<open>range\<close> loops in \<^verbatim>\<open>maxTaxon\<close> and in \<^verbatim>\<open>getTaxDist\<close>.
\<close>

definition calcStep ::
  "rangeOrder \<Rightarrow> rangeOrder \<Rightarrow> nat \<Rightarrow> rat \<Rightarrow> rankData \<Rightarrow> calcVars \<Rightarrow> calcVars" where
  "calcStep om od namesNum threshold rd st =
    (if rank rd \<le> Unknown then st
     else
       let (txn, pcent) = maxTaxon om namesNum rd;
           distr = (if standardRank (rank rd) then getTaxDist od namesNum rd else txnDistr st);
           (maxTx, maxPcent) =
             (if standardRank (rank rd) \<and> isMaxTaxon distr pcent then (txn, pcent)
              else (emptyTaxon, 0));
           found = (pcent > threshold \<and> \<not> foundMainTaxon st)
       in \<lparr>res = assignRank maxTx maxPcent distr (res st), txnDistr = distr,
           mainTaxon = (if found then txn else mainTaxon st),
           txnPCent = (if found then pcent else txnPCent st),
           foundMainTaxon = (found \<or> foundMainTaxon st)\<rparr>)"

text \<open>The variables as \<^verbatim>\<open>calcStats\<close> declares them before its loop.\<close>

definition initVars :: "nat \<Rightarrow> calcVars" where
  "initVars namesNum =
    \<lparr>res = emptyStats\<lparr>NamesNum := namesNum\<rparr>, txnDistr = [], mainTaxon = emptyTaxon,
     txnPCent = 0, foundMainTaxon = False\<rparr>"

text \<open>
  The loop runs \<^verbatim>\<open>idx\<close> over the indices of \<^verbatim>\<open>ranks\<close> and reads the bucket at
  \<^verbatim>\<open>reverseIdx = l - 1 - idx\<close>.
\<close>

definition calcLoop ::
  "rangeOrder \<Rightarrow> rangeOrder \<Rightarrow> nat \<Rightarrow> rankData list \<Rightarrow> rat \<Rightarrow> calcVars" where
  "calcLoop om od namesNum ranks threshold =
    (let l = length ranks
     in fold (\<lambda>idx. calcStep om od namesNum threshold (ranks ! (l - 1 - idx))) [0..<l]
          (initVars namesNum))"

definition calcStats ::
  "rangeOrder \<Rightarrow> rangeOrder \<Rightarrow> nat \<Rightarrow> rankData list \<Rightarrow> rat \<Rightarrow> Stats" where
  "calcStats om od namesNum ranks threshold =
    (let st = calcLoop om od namesNum ranks threshold
     in (res st)\<lparr>MainTaxon := mainTaxon st, MainTaxonPercentage := txnPCent st\<rparr>)"

subsection \<open>New\<close>

definition clamp :: "rat \<Rightarrow> rat" where
  "clamp threshold = (if threshold < 1 / 2 then 1 / 2 else threshold)"

definition New :: "rangeOrder \<Rightarrow> rangeOrder \<Rightarrow> Hierarchy list \<Rightarrow> rat \<Rightarrow> Stats" where
  "New om od h threshold =
    (let threshold' = clamp threshold;
         taxons = extractTaxons h
     in if length taxons = 1 then emptyStats
        else
          let namesNum = length taxons;
              ranks = populate taxons ranksData;
              ranks' = removeEmptyRanks ranks
          in calcStats om od namesNum ranks' threshold')"

section \<open>Notions of the specification\<close>

text \<open>
  The taxon with its canonical rank: the rank the extractor leaves in it. A rank that is
  still \<^verbatim>\<open>Empty\<close> is classified from the rank label; a rank the caller has set is kept.
\<close>

definition canonical :: "Taxon \<Rightarrow> Taxon" where
  "canonical t = (if Rank t = Empty then t\<lparr>Rank := NewRank (RankStr t)\<rparr> else t)"

text \<open>
  An item reaches genus level or finer when one of its taxa has a canonical rank that is
  not \<^verbatim>\<open>Unknown\<close> and is at most \<^verbatim>\<open>Genus\<close>.
\<close>

definition genusOrFiner :: "Hierarchy \<Rightarrow> bool" where
  "genusOrFiner h =
    (\<exists>t \<in> set h. Rank (canonical t) \<noteq> Unknown \<and> Rank (canonical t) \<le> Genus)"

text \<open>The count a map holds for a key; a key that is not in the map counts zero.\<close>

definition cnt :: "(Taxon \<times> nat) list \<Rightarrow> Taxon \<Rightarrow> nat" where
  "cnt es k = (case map_of es k of None \<Rightarrow> 0 | Some v \<Rightarrow> v)"

text \<open>
  The bucket of a rank after aggregation of the taxa \<open>ts\<close>: the loop body of \<^verbatim>\<open>New\<close>
  applied, from an empty bucket, to the taxa of that rank in their order.
\<close>

definition bucket :: "Rank \<Rightarrow> Taxon list \<Rightarrow> rankData" where
  "bucket r ts =
    fold bump (filter (\<lambda>t. Rank t = r) ts) \<lparr>rank = r, data = [], total = 0\<rparr>"

text \<open>
  The buckets that survive pruning: the value of \<^verbatim>\<open>ranks\<close> that \<^verbatim>\<open>New\<close> hands to
  \<^verbatim>\<open>calcStats\<close>.
\<close>

definition survivingRanks :: "Hierarchy list \<Rightarrow> rankData list" where
  "survivingRanks h = removeEmptyRanks (populate (extractTaxons h) ranksData)"

text \<open>
  A bucket is well formed when its map has one entry per key, every key has the rank of
  the bucket and every count is positive.
\<close>

definition wfBucket :: "rankData \<Rightarrow> bool" where
  "wfBucket rd =
    (distinct (map fst (data rd)) \<and>
     (\<forall>e \<in> set (data rd). Rank (fst e) = rank rd \<and> 0 < snd e))"

text \<open>
  A bucket qualifies for the main taxon when its rank is comparable and the fraction that
  \<^verbatim>\<open>maxTaxon\<close> returns for it strictly exceeds the threshold.
\<close>

definition qualifies :: "rangeOrder \<Rightarrow> nat \<Rightarrow> rat \<Rightarrow> rankData \<Rightarrow> bool" where
  "qualifies om n t rd = (Unknown < rank rd \<and> t < snd (maxTaxon om n rd))"

text \<open>The largest count of a map (0 for the empty map).\<close>

definition maxCount :: "(Taxon \<times> nat) list \<Rightarrow> nat" where
  "maxCount es = Max (insert 0 (snd ` set es))"

text \<open>The entries of a map that hold its largest count.\<close>

definition leaders :: "(Taxon \<times> nat) list \<Rightarrow> (Taxon \<times> nat) list" where
  "leaders es = filter (\<lambda>e. snd e = maxCount es) es"

text \<open>
  The dominant taxon and percentage that a \<^verbatim>\<open>Stats\<close> value holds for a rank: the pair of
  fields of a standard rank, and the zero values for every other rank.
\<close>

fun rankField :: "Rank \<Rightarrow> Stats \<Rightarrow> Taxon \<times> rat" where
  "rankField Kingdom s = (KingdomTaxon s, KingdomPercentage s)"
| "rankField Phylum s = (PhylumTaxon s, PhylumPercentage s)"
| "rankField Class s = (ClassTaxon s, ClassPercentage s)"
| "rankField Order s = (OrderTaxon s, OrderPercentage s)"
| "rankField Family s = (FamilyTaxon s, FamilyPercentage s)"
| "rankField Genus s = (GenusTaxon s, GenusPercentage s)"
| "rankField _ s = (emptyTaxon, 0)"

text \<open>The key of the first entry that holds the largest count.\<close>

definition theLeader :: "(Taxon \<times> nat) list \<Rightarrow> Taxon" where
  "theLeader es = fst (hd (leaders es))"

text \<open>
  The dominant taxon of a bucket among \<open>n\<close> names: the one taxon with the largest
  count, when there is exactly one and its name is not empty, with its fraction.
\<close>

definition dominant :: "nat \<Rightarrow> rankData \<Rightarrow> Taxon \<times> rat" where
  "dominant n rd =
    (if length (leaders (data rd)) = 1 \<and> Name (theLeader (data rd)) \<noteq> []
     then (theLeader (data rd), of_nat (maxCount (data rd)) / of_nat n)
     else (emptyTaxon, 0))"

text \<open>A well-formed bucket with at least one entry.\<close>

definition goodBucket :: "rankData \<Rightarrow> bool" where
  "goodBucket rd = (wfBucket rd \<and> data rd \<noteq> [])"

text \<open>The largest percentage of a distribution.\<close>

definition topPercentage :: "TaxonDist list \<Rightarrow> rat" where
  "topPercentage ds = Max (Percentage ` set ds)"

text \<open>The entries of a distribution that attain its largest percentage.\<close>

definition attaining :: "TaxonDist list \<Rightarrow> TaxonDist list" where
  "attaining ds = filter (\<lambda>d. Percentage d = topPercentage ds) ds"



section \<open>Example inputs\<close>

text \<open>
  The four names of the fifty-fifty test of the repository, each with its unranked clade,
  its kingdom, its genus and its species only; smaller inputs for the corner cases; and
  the four names with all their taxa.
\<close>

definition mkTaxon :: "string \<Rightarrow> string \<Rightarrow> string \<Rightarrow> Taxon" where
  "mkTaxon i n r = \<lparr>ID = i, Name = n, RankStr = r, Rank = Empty\<rparr>"

definition plantaeOnly :: Hierarchy where
  "plantaeOnly = [mkTaxon ''P'' ''Plantae'' ''kingdom'']"

definition puma :: Hierarchy where
  "puma =
    [mkTaxon ''5T6MX'' ''Biota'' ''unranked'', mkTaxon ''N'' ''Animalia'' ''kingdom'',
     mkTaxon ''75F9'' ''Puma'' ''genus'', mkTaxon ''4QHKG'' ''Puma concolor'' ''species'']"

definition bubo :: Hierarchy where
  "bubo =
    [mkTaxon ''5T6MX'' ''Biota'' ''unranked'', mkTaxon ''N'' ''Animalia'' ''kingdom'',
     mkTaxon ''3DQQ'' ''Bubo'' ''genus'', mkTaxon ''NKSD'' ''Bubo bubo'' ''species'']"

definition plantago :: Hierarchy where
  "plantago =
    [mkTaxon ''5T6MX'' ''Biota'' ''unranked'', mkTaxon ''P'' ''Plantae'' ''kingdom'',
     mkTaxon ''6RHN'' ''Plantago'' ''genus'', mkTaxon ''4JLPC'' ''Plantago major'' ''species'']"

definition potentilla :: Hierarchy where
  "potentilla =
    [mkTaxon ''5T6MX'' ''Biota'' ''unranked'', mkTaxon ''P'' ''Plantae'' ''kingdom'',
     mkTaxon ''6V7H'' ''Potentilla'' ''genus'',
     mkTaxon ''6VVPW'' ''Potentilla erecta'' ''species'']"

definition threeNames :: "Hierarchy list" where
  "threeNames = [potentilla, puma, plantago]"


definition twinA :: Hierarchy where
  "twinA = [mkTaxon ''G1'' ''Aus'' ''genus'']"

definition twinB :: Hierarchy where
  "twinB = [mkTaxon ''G2'' ''Aus'' ''genus'']"

definition tieA :: Hierarchy where
  "tieA =
    [mkTaxon ''F1'' ''Aidae'' ''family'', mkTaxon ''F2'' ''Bidae'' ''family'',
     mkTaxon ''G1'' ''Aus'' ''genus'']"

definition tieB :: Hierarchy where
  "tieB =
    [mkTaxon ''F1'' ''Aidae'' ''family'', mkTaxon ''F2'' ''Bidae'' ''family'',
     mkTaxon ''G2'' ''Bus'' ''genus'']"

definition anonA :: Hierarchy where
  "anonA = [mkTaxon ''K'' [] ''kingdom'', mkTaxon ''G1'' ''Aus'' ''genus'']"

definition anonB :: Hierarchy where
  "anonB = [mkTaxon ''K'' [] ''kingdom'', mkTaxon ''G2'' ''Bus'' ''genus'']"

text \<open>The kingdom bucket of the two names \<open>anonA\<close> and \<open>anonB\<close>.\<close>

definition anonKingdom :: rankData where
  "anonKingdom =
    \<lparr>rank = Kingdom,
     data = [(\<lparr>ID = ''K'', Name = [], RankStr = ''kingdom'', Rank = Kingdom\<rparr>, 2)],
     total = 2\<rparr>"

text \<open>The kingdom bucket of \<open>threeNames\<close>.\<close>

definition plantaeKingdom :: rankData where
  "plantaeKingdom =
    \<lparr>rank = Kingdom,
     data = [(\<lparr>ID = ''P'', Name = ''Plantae'', RankStr = ''kingdom'', Rank = Kingdom\<rparr>, 2),
             (\<lparr>ID = ''N'', Name = ''Animalia'', RankStr = ''kingdom'', Rank = Kingdom\<rparr>, 1)],
     total = 3\<rparr>"



text \<open>The four hierarchies of \<^verbatim>\<open>TestFiftyFifty\<close> in \<^verbatim>\<open>stats_test.go\<close>, in full.\<close>

definition potentillaPath :: Hierarchy where
  "potentillaPath =
    [mkTaxon ''5T6MX'' ''Biota'' ''unranked'',
     mkTaxon ''P'' ''Plantae'' ''kingdom'',
     mkTaxon ''TP'' ''Tracheophyta'' ''phylum'',
     mkTaxon ''MG'' ''Magnoliopsida'' ''class'',
     mkTaxon ''3Z6'' ''Rosales'' ''order'',
     mkTaxon ''FTK'' ''Rosaceae'' ''family'',
     mkTaxon ''628NC'' ''Rosoideae'' ''subfamily'',
     mkTaxon ''6V7H'' ''Potentilla'' ''genus'',
     mkTaxon ''6VVPW'' ''Potentilla erecta'' ''species'']"

definition pumaPath :: Hierarchy where
  "pumaPath =
    [mkTaxon ''5T6MX'' ''Biota'' ''unranked'',
     mkTaxon ''N'' ''Animalia'' ''kingdom'',
     mkTaxon ''CH2'' ''Chordata'' ''phylum'',
     mkTaxon ''6224G'' ''Mammalia'' ''class'',
     mkTaxon ''6226C'' ''Theria'' ''subclass'',
     mkTaxon ''LG'' ''Eutheria'' ''infraclass'',
     mkTaxon ''VS'' ''Carnivora'' ''order'',
     mkTaxon ''4DL'' ''Feliformia'' ''suborder'',
     mkTaxon ''623RM'' ''Felidae'' ''family'',
     mkTaxon ''JKL'' ''Felinae'' ''subfamily'',
     mkTaxon ''75F9'' ''Puma'' ''genus'',
     mkTaxon ''4QHKG'' ''Puma concolor'' ''species'']"

definition plantagoPath :: Hierarchy where
  "plantagoPath =
    [mkTaxon ''5T6MX'' ''Biota'' ''unranked'',
     mkTaxon ''P'' ''Plantae'' ''kingdom'',
     mkTaxon ''TP'' ''Tracheophyta'' ''phylum'',
     mkTaxon ''MG'' ''Magnoliopsida'' ''class'',
     mkTaxon ''3F4'' ''Lamiales'' ''order'',
     mkTaxon ''6262K'' ''Plantaginaceae'' ''family'',
     mkTaxon ''7NLQD'' ''Digitalidoideae'' ''subfamily'',
     mkTaxon ''6RHN'' ''Plantago'' ''genus'',
     mkTaxon ''4JLPC'' ''Plantago major'' ''species'']"

definition buboPath :: Hierarchy where
  "buboPath =
    [mkTaxon ''5T6MX'' ''Biota'' ''unranked'',
     mkTaxon ''N'' ''Animalia'' ''kingdom'',
     mkTaxon ''CH2'' ''Chordata'' ''phylum'',
     mkTaxon ''V2'' ''Aves'' ''class'',
     mkTaxon ''466'' ''Strigiformes'' ''order'',
     mkTaxon ''GQX'' ''Strigidae'' ''family'',
     mkTaxon ''KDK'' ''Striginae'' ''subfamily'',
     mkTaxon ''3DQQ'' ''Bubo'' ''genus'',
     mkTaxon ''NKSD'' ''Bubo bubo'' ''species'']"

definition fiftyFifty :: "Hierarchy list" where
  "fiftyFifty = [potentillaPath, pumaPath, plantagoPath, buboPath]"

lemmas example_defs =
  mkTaxon_def plantaeOnly_def puma_def bubo_def plantago_def potentilla_def

lemmas rank_defs = NewRank_def ranksMap_def less_eq_Rank_def less_Rank_def

section \<open>The extractor\<close>

lemma classifyLoop_eq:
  "classifyLoop ts g = (map canonical ts, g \<or> genusOrFiner ts)"
  by (induction ts arbitrary: g) (auto simp: canonical_def genusOrFiner_def Let_def)

lemma extractLoop_eq:
  "extractLoop hs acc = acc @ map (map canonical) (filter genusOrFiner hs)"
  by (induction hs arbitrary: acc) (simp_all add: classifyLoop_eq)

text \<open>
  C3. The extractor returns, in the order of the input, the items that reach genus level
  or finer, each with its ranks classified; every other item is dropped. So an item is
  kept if and only if one of its taxa has a canonical rank that is not \<^verbatim>\<open>Unknown\<close> and
  is at most \<^verbatim>\<open>Genus\<close>.
\<close>

theorem extractTaxons_keeps:
  "extractTaxons h = map (map canonical) (filter genusOrFiner h)"
  by (simp add: extractTaxons_def extractLoop_eq)

theorem extractTaxons_keeps_witness:
  "extractTaxons [plantaeOnly, puma] =
    [[\<lparr>ID = ''5T6MX'', Name = ''Biota'', RankStr = ''unranked'', Rank = Unknown\<rparr>,
      \<lparr>ID = ''N'', Name = ''Animalia'', RankStr = ''kingdom'', Rank = Kingdom\<rparr>,
      \<lparr>ID = ''75F9'', Name = ''Puma'', RankStr = ''genus'', Rank = Genus\<rparr>,
      \<lparr>ID = ''4QHKG'', Name = ''Puma concolor'', RankStr = ''species'', Rank = Species\<rparr>]]"
  using extractTaxons_keeps [of "[plantaeOnly, puma]"]
  by (simp add: canonical_def genusOrFiner_def example_defs rank_defs)

section \<open>Pruning and the short circuit\<close>

lemma removeLoop_eq: "removeLoop rs acc = acc @ filter (\<lambda>rd. total rd \<noteq> 0) rs"
  by (induction rs arbitrary: acc) simp_all

lemma removeEmptyRanks_eq: "removeEmptyRanks rs = filter (\<lambda>rd. total rd \<noteq> 0) rs"
  by (simp add: removeEmptyRanks_def removeLoop_eq)

lemma removeEmptyRanks_ranksData: "removeEmptyRanks ranksData = []"
  by (simp add: removeEmptyRanks_eq ranksData_def)

lemma calcStats_Nil: "calcStats om od n [] t = emptyStats\<lparr>NamesNum := n\<rparr>"
  by (simp add: calcStats_def calcLoop_def initVars_def emptyStats_def)

text \<open>
  C4. When the extractor retains no item or one item, \<^verbatim>\<open>New\<close> returns the zero
  \<^verbatim>\<open>Stats\<close>: \<^verbatim>\<open>NamesNum\<close> is 0, every taxon field is the zero taxon, every percentage is
  0 and the list of kingdoms is empty.
\<close>

theorem New_at_most_one_item:
  assumes "length (extractTaxons h) \<le> 1"
  shows "New om od h t = emptyStats"
proof (cases "length (extractTaxons h) = 1")
  case True
  then show ?thesis by (simp add: New_def)
next
  case False
  with assms have "length (extractTaxons h) = 0" by arith
  then have "extractTaxons h = []" by simp
  then show ?thesis
    by (simp add: New_def removeEmptyRanks_ranksData calcStats_Nil emptyStats_def)
qed

theorem New_at_most_one_item_witness:
  "length (extractTaxons [plantaeOnly, puma]) \<le> 1 \<and>
   New id id [plantaeOnly, puma] (7 / 10) = emptyStats \<and>
   NamesNum emptyStats = 0 \<and> GenusTaxon emptyStats = emptyTaxon \<and>
   MainTaxonPercentage emptyStats = 0"
proof -
  have one: "length (extractTaxons [plantaeOnly, puma]) \<le> 1"
    by (simp add: extractTaxons_def example_defs rank_defs)
  from New_at_most_one_item [OF one] one show ?thesis
    by (simp add: emptyStats_def)
qed

section \<open>Aggregation\<close>

lemma map_of_incr:
  "map_of (incr k es) k' = (if k' = k then Some (cnt es k + 1) else map_of es k')"
  by (induction es) (auto simp: cnt_def)

lemma keys_incr: "fst ` set (incr k es) = insert k (fst ` set es)"
proof (induction es)
  case Nil
  then show ?case by simp
next
  case (Cons e es)
  obtain k' v where e: "e = (k', v)" by (cases e)
  show ?case using Cons.IH by (cases "k' = k") (auto simp: e)
qed

lemma distinct_incr: "distinct (map fst es) \<Longrightarrow> distinct (map fst (incr k es))"
proof (induction es)
  case Nil
  then show ?case by simp
next
  case (Cons e es)
  obtain k' v where e: "e = (k', v)" by (cases e)
  from Cons show ?case
    using keys_incr [of k es] by (auto simp: e)
qed

lemma pos_incr: "(\<forall>e \<in> set es. 0 < snd e) \<Longrightarrow> (\<forall>e \<in> set (incr k es). 0 < snd e)"
proof (induction es)
  case Nil
  then show ?case by simp
next
  case (Cons e es)
  obtain k' v where e: "e = (k', v)" by (cases e)
  show ?case using Cons by (cases "k' = k") (auto simp: e)
qed

lemma map_of_fold_incr:
  "map_of (fold incr ts es) k =
    (if k \<in> set ts then Some (cnt es k + count_list ts k) else map_of es k)"
proof (induction ts arbitrary: es)
  case Nil
  then show ?case by simp
next
  case (Cons t ts)
  show ?case
    by (simp add: Cons.IH map_of_incr cnt_def)
qed

lemma keys_fold_incr: "fst ` set (fold incr ts es) = set ts \<union> fst ` set es"
  by (induction ts arbitrary: es) (auto simp: keys_incr)

lemma distinct_fold_incr:
  "distinct (map fst es) \<Longrightarrow> distinct (map fst (fold incr ts es))"
  by (induction ts arbitrary: es) (simp_all add: distinct_incr)

lemma pos_fold_incr:
  "(\<forall>e \<in> set es. 0 < snd e) \<Longrightarrow> (\<forall>e \<in> set (fold incr ts es). 0 < snd e)"
proof (induction ts arbitrary: es)
  case Nil
  then show ?case by simp
next
  case (Cons t ts)
  from pos_incr [OF Cons.prems] have "\<forall>e \<in> set (incr t es). 0 < snd e" .
  from Cons.IH [OF this] show ?case by simp
qed

lemma rank_fold_bump: "rank (fold bump ts rd) = rank rd"
  by (induction ts arbitrary: rd) (simp_all add: bump_def)

lemma total_fold_bump: "total (fold bump ts rd) = total rd + length ts"
  by (induction ts arbitrary: rd) (simp_all add: bump_def)

lemma data_fold_bump: "data (fold bump ts rd) = fold incr ts (data rd)"
  by (induction ts arbitrary: rd) (simp_all add: bump_def)

lemma length_populateItem: "length (populateItem cs rs) = length rs"
  by (induction cs arbitrary: rs) (simp_all add: Let_def)

lemma populateItem_nth:
  "i < length rs \<Longrightarrow>
    populateItem cs rs ! i = fold bump (filter (\<lambda>t. Index (Rank t) = i) cs) (rs ! i)"
  by (induction cs arbitrary: rs) (simp_all add: Let_def nth_list_update)

lemma length_populate: "length (populate taxons rs) = length rs"
  by (induction taxons arbitrary: rs) (simp_all add: length_populateItem)

lemma populate_nth:
  "i < length rs \<Longrightarrow>
    populate taxons rs ! i =
      fold bump (filter (\<lambda>t. Index (Rank t) = i) (concat taxons)) (rs ! i)"
  by (induction taxons arbitrary: rs) (simp_all add: length_populateItem populateItem_nth)

lemma Index_allRanks: "map Index allRanks = [0..<17]"
  by (simp add: allRanks_def Index_def upt_rec)

lemma allRanks_Index: "allRanks ! Index r = r"
  by (cases r) (simp_all add: allRanks_def Index_def)

lemma Index_less: "Index r < 17"
  by (simp add: Index_def)

lemma length_allRanks: "length allRanks = 17"
  by (simp add: allRanks_def)

lemma distinct_allRanks: "distinct allRanks"
  by (simp add: allRanks_def)

lemma Index_nth: "i < 17 \<Longrightarrow> Index (allRanks ! i) = i"
proof -
  assume i: "i < 17"
  have "map Index allRanks ! i = [0..<17] ! i" by (simp only: Index_allRanks)
  with i show ?thesis by (simp add: length_allRanks del: upt_Suc)
qed

lemma Index_eq_iff: "i < 17 \<Longrightarrow> (Index r = i) = (r = allRanks ! i)"
  using Index_nth allRanks_Index by auto

lemma populate_ranksData:
  "populate taxons ranksData = map (\<lambda>r. bucket r (concat taxons)) allRanks"
proof (rule nth_equalityI)
  show "length (populate taxons ranksData) =
      length (map (\<lambda>r. bucket r (concat taxons)) allRanks)"
    by (simp add: length_populate ranksData_def)
next
  fix i assume "i < length (populate taxons ranksData)"
  then have i: "i < 17" by (simp add: length_populate ranksData_def length_allRanks)
  then have il: "i < length ranksData" by (simp add: ranksData_def length_allRanks)
  have "populate taxons ranksData ! i =
      fold bump (filter (\<lambda>t. Index (Rank t) = i) (concat taxons)) (ranksData ! i)"
    by (rule populate_nth [OF il])
  also have "ranksData ! i = \<lparr>rank = allRanks ! i, data = [], total = 0\<rparr>"
    using i by (simp add: ranksData_def length_allRanks)
  also have "(\<lambda>t. Index (Rank t) = i) = (\<lambda>t. Rank t = allRanks ! i)"
    using Index_eq_iff [OF i] by auto
  finally show "populate taxons ranksData ! i =
      map (\<lambda>r. bucket r (concat taxons)) allRanks ! i"
    using i by (simp add: bucket_def length_allRanks)
qed

lemma rank_bucket: "rank (bucket r ts) = r"
  by (simp add: bucket_def rank_fold_bump)

lemma total_bucket: "total (bucket r ts) = length (filter (\<lambda>t. Rank t = r) ts)"
  by (simp add: bucket_def total_fold_bump)

lemma data_bucket: "data (bucket r ts) = fold incr (filter (\<lambda>t. Rank t = r) ts) []"
  by (simp add: bucket_def data_fold_bump)

lemma survivingRanks_eq:
  "survivingRanks h =
    map (\<lambda>r. bucket r (concat (extractTaxons h)))
      (filter (\<lambda>r. r \<in> Rank ` set (concat (extractTaxons h))) allRanks)"
proof -
  have "(\<lambda>r. total (bucket r ts) \<noteq> 0) = (\<lambda>r. r \<in> Rank ` set ts)" for ts
    by (auto simp: total_bucket filter_empty_conv)
  then show ?thesis
    by (simp add: survivingRanks_def removeEmptyRanks_eq populate_ranksData filter_map
        comp_def)
qed

lemma map_rank_survivingRanks:
  "map rank (survivingRanks h) =
    filter (\<lambda>r. r \<in> Rank ` set (concat (extractTaxons h))) allRanks"
  by (simp add: survivingRanks_eq comp_def rank_bucket)

lemma distinct_rank_survivingRanks: "distinct (map rank (survivingRanks h))"
  by (simp add: map_rank_survivingRanks distinct_allRanks)


lemma survivingRanks_Nil: "extractTaxons h = [] \<Longrightarrow> survivingRanks h = []"
  by (simp add: survivingRanks_eq)

lemma wfBucket_bucket: "wfBucket (bucket r ts)"
proof -
  have d: "distinct (map fst (data (bucket r ts)))"
    by (simp add: data_bucket distinct_fold_incr)
  have p: "\<forall>e \<in> set (data (bucket r ts)). 0 < snd e"
    unfolding data_bucket by (rule pos_fold_incr) simp
  have keq: "fst ` set (data (bucket r ts)) = set (filter (\<lambda>t. Rank t = r) ts)"
    by (simp add: data_bucket keys_fold_incr)
  have k: "\<forall>e \<in> set (data (bucket r ts)). Rank (fst e) = r"
  proof
    fix e assume "e \<in> set (data (bucket r ts))"
    then have "fst e \<in> fst ` set (data (bucket r ts))" by simp
    with keq have "fst e \<in> set (filter (\<lambda>t. Rank t = r) ts)" by simp
    then show "Rank (fst e) = r" by simp
  qed
  from d p k show ?thesis by (simp add: wfBucket_def rank_bucket)
qed

lemma count_list_filter_rank:
  "count_list (filter (\<lambda>t. Rank t = r) ts) k = (if Rank k = r then count_list ts k else 0)"
  by (induction ts) auto

lemma map_of_bucket:
  "t \<in> set ts \<Longrightarrow> map_of (data (bucket (Rank t) ts)) t = Some (count_list ts t)"
  by (simp add: data_bucket map_of_fold_incr cnt_def count_list_filter_rank)

section \<open>The loop of calcStats\<close>

lemma New_unfold:
  "New om od h t =
    (if length (extractTaxons h) = 1 then emptyStats
     else calcStats om od (length (extractTaxons h)) (survivingRanks h) (clamp t))"
  by (simp add: New_def survivingRanks_def Let_def)

lemma rev_by_index: "map (\<lambda>idx. xs ! (length xs - 1 - idx)) [0..<length xs] = rev xs"
  by (rule nth_equalityI) (simp_all add: rev_nth)

lemma calcLoop_eq:
  "calcLoop om od n rs t = fold (calcStep om od n t) (rev rs) (initVars n)"
proof -
  have "fold (calcStep om od n t)
          (map (\<lambda>idx. rs ! (length rs - 1 - idx)) [0..<length rs]) (initVars n)
      = fold (calcStep om od n t) (rev rs) (initVars n)"
    by (simp only: rev_by_index)
  then show ?thesis
    by (simp add: calcLoop_def Let_def fold_map comp_def)
qed

lemma calcStep_main:
  "mainTaxon (calcStep om od n t rd st) =
     (if qualifies om n t rd \<and> \<not> foundMainTaxon st then fst (maxTaxon om n rd)
      else mainTaxon st)"
  "txnPCent (calcStep om od n t rd st) =
     (if qualifies om n t rd \<and> \<not> foundMainTaxon st then snd (maxTaxon om n rd)
      else txnPCent st)"
  "foundMainTaxon (calcStep om od n t rd st) =
     (qualifies om n t rd \<or> foundMainTaxon st)"
  by (auto simp: calcStep_def qualifies_def Let_def case_prod_beta not_le)

lemma scan_found:
  "foundMainTaxon st \<Longrightarrow>
    mainTaxon (fold (calcStep om od n t) xs st) = mainTaxon st \<and>
    txnPCent (fold (calcStep om od n t) xs st) = txnPCent st"
  by (induction xs arbitrary: st) (simp_all add: calcStep_main)

lemma scan_find:
  "\<not> foundMainTaxon st \<Longrightarrow>
    (mainTaxon (fold (calcStep om od n t) xs st),
     txnPCent (fold (calcStep om od n t) xs st)) =
      (case find (qualifies om n t) xs of
         None \<Rightarrow> (mainTaxon st, txnPCent st)
       | Some rd \<Rightarrow> maxTaxon om n rd)"
proof (induction xs arbitrary: st)
  case Nil
  then show ?case by simp
next
  case (Cons x xs)
  show ?case
  proof (cases "qualifies om n t x")
    case True
    then have "foundMainTaxon (calcStep om od n t x st)" by (simp add: calcStep_main)
    from scan_found [OF this] True Cons.prems show ?thesis
      by (simp add: calcStep_main)
  next
    case False
    then have "\<not> foundMainTaxon (calcStep om od n t x st)"
      using Cons.prems by (simp add: calcStep_main)
    from Cons.IH [OF this] False show ?thesis
      by (simp add: calcStep_main split: option.splits)
  qed
qed

lemma calcStats_main:
  "(MainTaxon (calcStats om od n rs t), MainTaxonPercentage (calcStats om od n rs t)) =
     (case find (qualifies om n t) (rev rs) of
        None \<Rightarrow> (emptyTaxon, 0)
      | Some rd \<Rightarrow> maxTaxon om n rd)"
proof -
  have "\<not> foundMainTaxon (initVars n)" by (simp add: initVars_def)
  from scan_find [OF this, of om od n t "rev rs"] show ?thesis
    by (simp add: calcStats_def calcLoop_eq Let_def initVars_def split: option.splits)
qed





section \<open>maxTaxon\<close>

lemma maxLoop_fst: "fst (maxLoop es mx cld) = fold max (map snd es) mx"
  by (induction es mx cld rule: maxLoop.induct) (simp_all add: max_def)

lemma fold_max_Max: "fold max xs (m::nat) = Max (insert m (set xs))"
  using Max.set_eq_fold [of m xs] by simp

lemma maxLoop_maxCount: "fst (maxLoop es 0 cld) = maxCount es"
  by (simp add: maxLoop_fst fold_max_Max maxCount_def)

lemma maxLoop_snd:
  "(snd (maxLoop es mx cld) = cld \<and> fst (maxLoop es mx cld) = mx) \<or>
   (snd (maxLoop es mx cld), fst (maxLoop es mx cld)) \<in> set es"
  by (induction es mx cld rule: maxLoop.induct) auto

lemma admissible_set: "admissible ord \<Longrightarrow> set (ord es) = set es"
  by (metis admissible_def mset_eq_setD)

lemma maxCount_perm: "admissible ord \<Longrightarrow> maxCount (ord es) = maxCount es"
  by (simp add: maxCount_def admissible_set)

lemma maxTaxon_snd:
  "admissible om \<Longrightarrow> snd (maxTaxon om n rd) = of_nat (maxCount (data rd)) / of_nat n"
  using maxLoop_maxCount [of "om (data rd)" emptyTaxon]
  by (simp add: maxTaxon_def case_prod_beta Let_def maxCount_perm)




section \<open>The threshold\<close>



lemma find_SomeD: "find P xs = Some x \<Longrightarrow> x \<in> set xs \<and> P x"
  by (induction xs) (auto split: if_splits)



lemma admissible_id: "admissible id"
  by (simp add: admissible_def)

lemma admissible_rev: "admissible rev"
  by (simp add: admissible_def)


section \<open>Divisions\<close>



section \<open>The aggregation key\<close>

lemma populate_Index:
  "populate taxons ranksData ! Index r = bucket r (concat taxons)"
  using Index_less [of r] by (simp add: populate_ranksData length_allRanks allRanks_Index)

lemma Taxon_eq_iff:
  "(u = t) =
    (ID u = ID t \<and> Name u = Name t \<and> RankStr u = RankStr t \<and> Rank u = Rank t)"
  for u t :: Taxon
  by auto

lemma count_list_filter: "count_list ts t = length (filter (\<lambda>u. u = t) ts)"
  by (induction ts) auto

text \<open>
  C5 as amended. The map of a bucket is keyed by the whole \<^verbatim>\<open>Taxon\<close> value. The count
  it holds for a taxon of the retained items is the number of taxon entries of the
  retained items that agree with it in all four fields: identifier, name, rank label and
  rank. Two entries are counted under one key exactly when they agree in all four.
\<close>

theorem aggregation_key:
  assumes "t \<in> set (concat (extractTaxons h))"
  shows "map_of (data (populate (extractTaxons h) ranksData ! Index (Rank t))) t =
    Some (length (filter
      (\<lambda>u. ID u = ID t \<and> Name u = Name t \<and> RankStr u = RankStr t \<and> Rank u = Rank t)
      (concat (extractTaxons h))))"
  using map_of_bucket [OF assms]
  by (simp add: populate_Index count_list_filter Taxon_eq_iff)

theorem aggregation_key_witness:
  "\<lparr>ID = ''P'', Name = ''Plantae'', RankStr = ''kingdom'', Rank = Kingdom\<rparr>
     \<in> set (concat (extractTaxons threeNames)) \<and>
   map_of (data (populate (extractTaxons threeNames) ranksData ! Index Kingdom))
     \<lparr>ID = ''P'', Name = ''Plantae'', RankStr = ''kingdom'', Rank = Kingdom\<rparr> = Some 2"
proof -
  let ?t = "\<lparr>ID = ''P'', Name = ''Plantae'', RankStr = ''kingdom'', Rank = Kingdom\<rparr>"
  have m: "?t \<in> set (concat (extractTaxons threeNames))"
    by code_simp
  have c: "length (filter
      (\<lambda>u. ID u = ID ?t \<and> Name u = Name ?t \<and> RankStr u = RankStr ?t \<and> Rank u = Rank ?t)
      (concat (extractTaxons threeNames))) = 2"
    by code_simp
  from aggregation_key [OF m] c m show ?thesis by simp
qed

text \<open>
  C5 fails as stated: the genera of two names have the same name and rank and differ in
  the identifier. They are counted under two keys, each with count 1, and the genus of
  the two names is a tie.
\<close>

theorem aggregation_key_counterexample:
  "map Name (concat (extractTaxons [twinA, twinB])) = [''Aus'', ''Aus''] \<and>
   map Rank (concat (extractTaxons [twinA, twinB])) = [Genus, Genus] \<and>
   map ID (concat (extractTaxons [twinA, twinB])) = [''G1'', ''G2''] \<and>
   data (populate (extractTaxons [twinA, twinB]) ranksData ! Index Genus) =
     [(\<lparr>ID = ''G1'', Name = ''Aus'', RankStr = ''genus'', Rank = Genus\<rparr>, 1),
      (\<lparr>ID = ''G2'', Name = ''Aus'', RankStr = ''genus'', Rank = Genus\<rparr>, 1)] \<and>
   GenusTaxon (New id id [twinA, twinB] 0) = emptyTaxon"
  by code_simp

section \<open>The rank fields\<close>

lemma rankField_assignRank:
  "rankField r (assignRank tx p d s) =
    (if Rank tx = r \<and> standardRank r then (tx, p) else rankField r s)"
  by (cases r; cases "Rank tx"; simp add: assignRank_def standardRank_def)

lemma Kingdoms_assignRank:
  "Kingdoms (assignRank tx p d s) = (if Rank tx = Kingdom then d else Kingdoms s)"
  by (cases "Rank tx") (simp_all add: assignRank_def)

lemma NamesNum_assignRank: "NamesNum (assignRank tx p d s) = NamesNum s"
  by (cases "Rank tx") (simp_all add: assignRank_def)

lemma assignRank_empty: "assignRank emptyTaxon p d s = s"
  by (simp add: assignRank_def emptyTaxon_def)

lemma standard_comparable: "standardRank r \<Longrightarrow> Unknown < r"
  by (auto simp: standardRank_def less_Rank_def)

lemma res_calcStep:
  "res (calcStep om od n t rd st) =
    (if standardRank (rank rd) \<and> isMaxTaxon (getTaxDist od n rd) (snd (maxTaxon om n rd))
     then assignRank (fst (maxTaxon om n rd)) (snd (maxTaxon om n rd)) (getTaxDist od n rd)
            (res st)
     else res st)"
proof (cases "rank rd \<le> Unknown")
  case True
  then have "\<not> standardRank (rank rd)" using standard_comparable [of "rank rd"] by auto
  with True show ?thesis by (simp add: calcStep_def)
next
  case False
  then show ?thesis
    by (simp add: calcStep_def Let_def case_prod_beta assignRank_empty)
qed

lemma countLoop_eq:
  "countLoop cd p c = c + length (filter (\<lambda>x. Percentage x = p) cd)"
  by (induction cd arbitrary: c) simp_all

lemma length_filter_perm:
  "admissible ord \<Longrightarrow> length (filter Q (ord es)) = length (filter Q es)"
  by (metis admissible_def mset_filter size_mset)

lemma isMaxTaxon_getTaxDist:
  assumes "admissible od" and "0 < n"
  shows "isMaxTaxon (getTaxDist od n rd) (of_nat m / of_nat n) =
    (length (filter (\<lambda>e. snd e = m) (data rd)) = 1)"
proof -
  have "length (filter (\<lambda>x. Percentage x = of_nat m / of_nat n) (getTaxDist od n rd)) =
      length (filter (\<lambda>e. snd e = m) (od (data rd)))"
    using assms(2)
    by (simp add: getTaxDist_def length_filter_map comp_def case_prod_beta)
  also have "\<dots> = length (filter (\<lambda>e. snd e = m) (data rd))"
    by (rule length_filter_perm [OF assms(1)])
  finally show ?thesis
    by (simp add: isMaxTaxon_def countLoop_eq)
qed

lemma maxCount_pos:
  assumes "es \<noteq> []" and "\<forall>e \<in> set es. 0 < snd e"
  shows "0 < maxCount es"
proof -
  from assms obtain e where e: "e \<in> set es" "0 < snd e" by (cases es) auto
  then have "snd e \<le> maxCount es" by (simp add: maxCount_def)
  with e show ?thesis by simp
qed

lemma maxLoop_mem:
  assumes "admissible om" and "es \<noteq> []" and "\<forall>e \<in> set es. 0 < snd e"
  shows "(snd (maxLoop (om es) 0 emptyTaxon), maxCount es) \<in> set es"
proof -
  let ?l = "maxLoop (om es) 0 emptyTaxon"
  have f: "fst ?l = maxCount es"
    by (simp add: maxLoop_maxCount maxCount_perm [OF assms(1)])
  with maxCount_pos [OF assms(2,3)] have "fst ?l \<noteq> 0" by simp
  with maxLoop_snd [of "om es" 0 emptyTaxon] have "(snd ?l, fst ?l) \<in> set (om es)" by auto
  then show ?thesis by (simp add: f admissible_set [OF assms(1)])
qed

lemma leader_unique:
  assumes "length (leaders es) = 1" and "(k, maxCount es) \<in> set es"
  shows "k = theLeader es"
proof -
  from assms(1) obtain x where x: "leaders es = [x]"
    by (cases "leaders es") auto
  from assms(2) have "(k, maxCount es) \<in> set (leaders es)" by (simp add: leaders_def)
  with x show ?thesis by (auto simp: theLeader_def)
qed

lemma theLeader_mem:
  assumes "length (leaders es) = 1"
  shows "(theLeader es, maxCount es) \<in> set es"
proof -
  from assms obtain x where x: "leaders es = [x]"
    by (cases "leaders es") auto
  then have "x \<in> set (leaders es)" by simp
  then have "x \<in> set es" and "snd x = maxCount es" by (simp_all add: leaders_def)
  with x show ?thesis by (cases x) (simp add: theLeader_def)
qed

lemma maxTaxon_wf:
  assumes "admissible om" and "wfBucket rd" and "data rd \<noteq> []"
    and "length (leaders (data rd)) = 1"
  shows "fst (maxTaxon om n rd) =
    (if Name (theLeader (data rd)) \<noteq> [] then theLeader (data rd) else emptyTaxon)"
proof -
  from assms(2) have pos: "\<forall>e \<in> set (data rd). 0 < snd e" by (simp add: wfBucket_def)
  from maxLoop_mem [OF assms(1,3) pos]
  have "(snd (maxLoop (om (data rd)) 0 emptyTaxon), maxCount (data rd)) \<in> set (data rd)" .
  from leader_unique [OF assms(4) this]
  have "snd (maxLoop (om (data rd)) 0 emptyTaxon) = theLeader (data rd)" .
  then show ?thesis
    by (simp add: maxTaxon_def case_prod_beta Let_def)
qed

lemma Rank_theLeader:
  assumes "wfBucket rd" and "length (leaders (data rd)) = 1"
  shows "Rank (theLeader (data rd)) = rank rd"
  using theLeader_mem [OF assms(2)] assms(1) by (auto simp: wfBucket_def)

lemma dominant_cases:
  "dominant n rd = (emptyTaxon, 0) \<or>
   (length (leaders (data rd)) = 1 \<and> Name (theLeader (data rd)) \<noteq> [] \<and>
    dominant n rd = (theLeader (data rd), of_nat (maxCount (data rd)) / of_nat n))"
  by (simp add: dominant_def)

lemma dominant_nonempty:
  "dominant n rd \<noteq> (emptyTaxon, 0) \<Longrightarrow>
    length (leaders (data rd)) = 1 \<and> Name (theLeader (data rd)) \<noteq> [] \<and>
    dominant n rd = (theLeader (data rd), of_nat (maxCount (data rd)) / of_nat n)"
  using dominant_cases [of n rd] by blast

lemma dominant_iff:
  "(dominant n rd \<noteq> (emptyTaxon, 0)) =
    (length (leaders (data rd)) = 1 \<and> Name (theLeader (data rd)) \<noteq> [])"
  by (auto simp: dominant_def emptyTaxon_def)

lemma res_calcStep_good:
  assumes "admissible om" and "admissible od" and "0 < n" and "goodBucket rd"
  shows "res (calcStep om od n t rd st) =
    (if standardRank (rank rd) \<and> dominant n rd \<noteq> (emptyTaxon, 0)
     then assignRank (fst (dominant n rd)) (snd (dominant n rd)) (getTaxDist od n rd) (res st)
     else res st)"
proof -
  from assms(4) have wf: "wfBucket rd" and ne: "data rd \<noteq> []"
    by (simp_all add: goodBucket_def)
  have p: "snd (maxTaxon om n rd) = of_nat (maxCount (data rd)) / of_nat n"
    by (rule maxTaxon_snd [OF assms(1)])
  have i: "isMaxTaxon (getTaxDist od n rd) (snd (maxTaxon om n rd)) =
      (length (leaders (data rd)) = 1)"
    unfolding p by (simp add: isMaxTaxon_getTaxDist [OF assms(2,3)] leaders_def)
  show ?thesis
  proof (cases "length (leaders (data rd)) = 1")
    case True
    note f = maxTaxon_wf [OF assms(1) wf ne True, of n]
    show ?thesis
    proof (cases "Name (theLeader (data rd)) \<noteq> []")
      case True
      with \<open>length (leaders (data rd)) = 1\<close> f p i show ?thesis
        by (simp add: res_calcStep dominant_iff) (simp add: dominant_def)
    next
      case False
      with \<open>length (leaders (data rd)) = 1\<close> f p i show ?thesis
        by (simp add: res_calcStep dominant_iff assignRank_empty)
    qed
  next
    case False
    with i show ?thesis
      by (simp add: res_calcStep dominant_iff)
  qed
qed

lemma Rank_dominant:
  assumes "wfBucket rd" and "dominant n rd \<noteq> (emptyTaxon, 0)"
  shows "Rank (fst (dominant n rd)) = rank rd"
  using dominant_nonempty [OF assms(2)] Rank_theLeader [OF assms(1)] by simp

lemma rankField_calcStep:
  assumes "admissible om" and "admissible od" and "0 < n" and "goodBucket rd"
  shows "rankField r (res (calcStep om od n t rd st)) =
    (if rank rd = r \<and> standardRank r \<and> dominant n rd \<noteq> (emptyTaxon, 0)
     then dominant n rd else rankField r (res st))"
proof -
  from assms(4) have wf: "wfBucket rd" by (simp add: goodBucket_def)
  show ?thesis
    using Rank_dominant [OF wf, of n]
    by (auto simp: res_calcStep_good [OF assms] rankField_assignRank)
qed

lemma Kingdoms_calcStep:
  assumes "admissible om" and "admissible od" and "0 < n" and "goodBucket rd"
  shows "Kingdoms (res (calcStep om od n t rd st)) =
    (if rank rd = Kingdom \<and> dominant n rd \<noteq> (emptyTaxon, 0)
     then getTaxDist od n rd else Kingdoms (res st))"
proof -
  from assms(4) have wf: "wfBucket rd" by (simp add: goodBucket_def)
  show ?thesis
    using Rank_dominant [OF wf, of n]
    by (auto simp: res_calcStep_good [OF assms] Kingdoms_assignRank standardRank_def)
qed

lemma NamesNum_calcStep: "NamesNum (res (calcStep om od n t rd st)) = NamesNum (res st)"
  by (simp add: res_calcStep NamesNum_assignRank)

lemma rankField_fold_other:
  assumes "admissible om" and "admissible od" and "0 < n"
    and "\<forall>rd \<in> set xs. goodBucket rd \<and> rank rd \<noteq> r"
  shows "rankField r (res (fold (calcStep om od n t) xs st)) = rankField r (res st)"
  using assms(4)
proof (induction xs arbitrary: st)
  case Nil
  then show ?case by simp
next
  case (Cons x xs)
  then have g: "goodBucket x" and nr: "rank x \<noteq> r"
    and rest: "\<forall>rd \<in> set xs. goodBucket rd \<and> rank rd \<noteq> r" by simp_all
  from Cons.IH [OF rest, of "calcStep om od n t x st"] nr show ?case
    by (simp add: rankField_calcStep [OF assms(1,2,3) g])
qed

lemma Kingdoms_fold_other:
  assumes "admissible om" and "admissible od" and "0 < n"
    and "\<forall>rd \<in> set xs. goodBucket rd \<and> rank rd \<noteq> Kingdom"
  shows "Kingdoms (res (fold (calcStep om od n t) xs st)) = Kingdoms (res st)"
  using assms(4)
proof (induction xs arbitrary: st)
  case Nil
  then show ?case by simp
next
  case (Cons x xs)
  then have g: "goodBucket x" and nr: "rank x \<noteq> Kingdom"
    and rest: "\<forall>rd \<in> set xs. goodBucket rd \<and> rank rd \<noteq> Kingdom" by simp_all
  from Cons.IH [OF rest, of "calcStep om od n t x st"] nr show ?case
    by (simp add: Kingdoms_calcStep [OF assms(1,2,3) g])
qed

lemma split_distinct_rank:
  assumes "rd \<in> set xs" and "distinct (map rank xs)"
  shows "\<exists>ys zs. xs = ys @ rd # zs \<and> (\<forall>x \<in> set ys. rank x \<noteq> rank rd) \<and>
    (\<forall>x \<in> set zs. rank x \<noteq> rank rd)"
proof -
  from split_list [OF assms(1)] obtain ys zs where xs: "xs = ys @ rd # zs" by blast
  with assms(2) have "rank rd \<notin> rank ` set ys" and "rank rd \<notin> rank ` set zs"
    by auto
  then have "(\<forall>x \<in> set ys. rank x \<noteq> rank rd) \<and> (\<forall>x \<in> set zs. rank x \<noteq> rank rd)"
    by (metis image_eqI)
  with xs show ?thesis by blast
qed

lemma rankField_fold_mem:
  assumes "admissible om" and "admissible od" and "0 < n"
    and "\<forall>x \<in> set xs. goodBucket x" and "distinct (map rank xs)" and "rd \<in> set xs"
  shows "rankField (rank rd) (res (fold (calcStep om od n t) xs st)) =
    (if standardRank (rank rd) \<and> dominant n rd \<noteq> (emptyTaxon, 0) then dominant n rd
     else rankField (rank rd) (res st))"
proof -
  from split_distinct_rank [OF assms(6,5)] obtain ys zs where xs: "xs = ys @ rd # zs"
    and ys: "\<forall>x \<in> set ys. rank x \<noteq> rank rd" and zs: "\<forall>x \<in> set zs. rank x \<noteq> rank rd"
    by blast
  from assms(4) xs ys have gy: "\<forall>x \<in> set ys. goodBucket x \<and> rank x \<noteq> rank rd" by simp
  from assms(4) xs zs have gz: "\<forall>x \<in> set zs. goodBucket x \<and> rank x \<noteq> rank rd" by simp
  from assms(4,6) have g: "goodBucket rd" by simp
  show ?thesis
    by (simp add: xs rankField_fold_other [OF assms(1,2,3) gz]
        rankField_calcStep [OF assms(1,2,3) g] rankField_fold_other [OF assms(1,2,3) gy])
qed

lemma Kingdoms_fold_mem:
  assumes "admissible om" and "admissible od" and "0 < n"
    and "\<forall>x \<in> set xs. goodBucket x" and "distinct (map rank xs)" and "rd \<in> set xs"
    and "rank rd = Kingdom"
  shows "Kingdoms (res (fold (calcStep om od n t) xs st)) =
    (if dominant n rd \<noteq> (emptyTaxon, 0) then getTaxDist od n rd else Kingdoms (res st))"
proof -
  from split_distinct_rank [OF assms(6,5)] assms(7) obtain ys zs where xs: "xs = ys @ rd # zs"
    and ys: "\<forall>x \<in> set ys. rank x \<noteq> Kingdom" and zs: "\<forall>x \<in> set zs. rank x \<noteq> Kingdom"
    by auto
  from assms(4) xs ys have gy: "\<forall>x \<in> set ys. goodBucket x \<and> rank x \<noteq> Kingdom" by simp
  from assms(4) xs zs have gz: "\<forall>x \<in> set zs. goodBucket x \<and> rank x \<noteq> Kingdom" by simp
  from assms(4,6) have g: "goodBucket rd" by simp
  show ?thesis
    by (simp add: xs Kingdoms_fold_other [OF assms(1,2,3) gz] assms(7)
        Kingdoms_calcStep [OF assms(1,2,3) g] Kingdoms_fold_other [OF assms(1,2,3) gy])
qed

lemma NamesNum_fold:
  "NamesNum (res (fold (calcStep om od n t) xs st)) = NamesNum (res st)"
  by (induction xs arbitrary: st) (simp_all add: NamesNum_calcStep)

lemma rankField_main_update:
  "rankField r (s\<lparr>MainTaxon := a, MainTaxonPercentage := b\<rparr>) = rankField r s"
  by (cases r) simp_all

lemma rankField_init: "rankField r (res (initVars n)) = (emptyTaxon, 0)"
  by (cases r) (simp_all add: initVars_def emptyStats_def)

lemma rankField_emptyStats: "rankField r emptyStats = (emptyTaxon, 0)"
  by (cases r) (simp_all add: emptyStats_def)

lemma rankField_nonstandard: "\<not> standardRank r \<Longrightarrow> rankField r s = (emptyTaxon, 0)"
  by (cases r) (simp_all add: standardRank_def)

lemma good_survivingRanks: "rd \<in> set (survivingRanks h) \<Longrightarrow> goodBucket rd"
proof -
  assume rd: "rd \<in> set (survivingRanks h)"
  let ?ts = "concat (extractTaxons h)"
  from rd obtain r where r: "rd = bucket r ?ts" and m: "r \<in> Rank ` set ?ts"
    by (auto simp: survivingRanks_eq)
  from m have "set (filter (\<lambda>t. Rank t = r) ?ts) \<noteq> {}" by auto
  then have "fst ` set (data (bucket r ?ts)) \<noteq> {}"
    by (simp add: data_bucket keys_fold_incr)
  then have "data (bucket r ?ts) \<noteq> []" by auto
  with r wfBucket_bucket [of r ?ts] show ?thesis by (simp add: goodBucket_def)
qed

lemma survivingRanks_pos:
  assumes "rd \<in> set (survivingRanks h)"
  shows "0 < length (extractTaxons h)"
proof -
  from assms have "survivingRanks h \<noteq> []" by auto
  with survivingRanks_Nil [of h] have "extractTaxons h \<noteq> []" by blast
  then show ?thesis by simp
qed

lemma New_rankField_mem:
  assumes "admissible om" and "admissible od"
    and "rd \<in> set (survivingRanks h)" and "length (extractTaxons h) \<noteq> 1"
  shows "rankField (rank rd) (New om od h t) =
    (if standardRank (rank rd) then dominant (length (extractTaxons h)) rd
     else (emptyTaxon, 0))"
proof -
  let ?n = "length (extractTaxons h)"
  note n = survivingRanks_pos [OF assms(3)]
  have g: "\<forall>x \<in> set (rev (survivingRanks h)). goodBucket x"
    by (simp add: good_survivingRanks)
  have d: "distinct (map rank (rev (survivingRanks h)))"
    using distinct_rank_survivingRanks [of h] by (simp add: rev_map [symmetric])
  from assms(3) have m: "rd \<in> set (rev (survivingRanks h))" by simp
  note F = rankField_fold_mem [OF assms(1,2) n g d m, of "clamp t" "initVars ?n"]
  show ?thesis
  proof (cases "standardRank (rank rd)")
    case True
    with F assms(4) show ?thesis
      by (auto simp: New_unfold calcStats_def calcLoop_eq Let_def rankField_main_update
          rankField_init)
  next
    case False
    then show ?thesis by (simp add: rankField_nonstandard)
  qed
qed

lemma New_rankField_notin:
  assumes "admissible om" and "admissible od"
    and "r \<notin> rank ` set (survivingRanks h) \<or> length (extractTaxons h) = 1"
  shows "rankField r (New om od h t) = (emptyTaxon, 0)"
proof (cases "length (extractTaxons h) = 1")
  case True
  then show ?thesis by (simp add: New_unfold rankField_emptyStats)
next
  case False
  with assms(3) have nr: "r \<notin> rank ` set (survivingRanks h)" by simp
  let ?n = "length (extractTaxons h)"
  show ?thesis
  proof (cases "survivingRanks h = []")
    case True
    with False show ?thesis
      by (simp add: New_unfold calcStats_def calcLoop_eq Let_def rankField_main_update
          rankField_init)
  next
    case ne: False
    then obtain rd where "rd \<in> set (survivingRanks h)" by (cases "survivingRanks h") auto
    note n = survivingRanks_pos [OF this]
    from nr have g: "\<forall>x \<in> set (rev (survivingRanks h)). goodBucket x \<and> rank x \<noteq> r"
      by (auto simp: good_survivingRanks)
    from rankField_fold_other [OF assms(1,2) n g, of "clamp t" "initVars ?n"] False
    show ?thesis
      by (simp add: New_unfold calcStats_def calcLoop_eq Let_def rankField_main_update
          rankField_init)
  qed
qed

lemma Kingdoms_init: "Kingdoms (res (initVars n)) = []"
  by (simp add: initVars_def emptyStats_def)

lemma New_Kingdoms_mem:
  assumes "admissible om" and "admissible od"
    and "rd \<in> set (survivingRanks h)" and "length (extractTaxons h) \<noteq> 1"
    and "rank rd = Kingdom"
  shows "Kingdoms (New om od h t) =
    (if dominant (length (extractTaxons h)) rd \<noteq> (emptyTaxon, 0)
     then getTaxDist od (length (extractTaxons h)) rd else [])"
proof -
  let ?n = "length (extractTaxons h)"
  note n = survivingRanks_pos [OF assms(3)]
  have g: "\<forall>x \<in> set (rev (survivingRanks h)). goodBucket x"
    by (simp add: good_survivingRanks)
  have d: "distinct (map rank (rev (survivingRanks h)))"
    using distinct_rank_survivingRanks [of h] by (simp add: rev_map [symmetric])
  from assms(3) have m: "rd \<in> set (rev (survivingRanks h))" by simp
  from Kingdoms_fold_mem [OF assms(1,2) n g d m assms(5), of "clamp t" "initVars ?n"] assms(4)
  show ?thesis
    by (simp add: New_unfold calcStats_def calcLoop_eq Let_def Kingdoms_init)
qed

lemma New_Kingdoms_notin:
  assumes "admissible om" and "admissible od"
    and "Kingdom \<notin> rank ` set (survivingRanks h) \<or> length (extractTaxons h) = 1"
  shows "Kingdoms (New om od h t) = []"
proof (cases "length (extractTaxons h) = 1")
  case True
  then show ?thesis by (simp add: New_unfold emptyStats_def)
next
  case False
  with assms(3) have nr: "Kingdom \<notin> rank ` set (survivingRanks h)" by simp
  let ?n = "length (extractTaxons h)"
  show ?thesis
  proof (cases "survivingRanks h = []")
    case True
    with False show ?thesis
      by (simp add: New_unfold calcStats_def calcLoop_eq Let_def Kingdoms_init)
  next
    case ne: False
    then obtain rd where "rd \<in> set (survivingRanks h)" by (cases "survivingRanks h") auto
    note n = survivingRanks_pos [OF this]
    from nr have g: "\<forall>x \<in> set (rev (survivingRanks h)). goodBucket x \<and> rank x \<noteq> Kingdom"
      by (metis good_survivingRanks image_eqI set_rev)
    from Kingdoms_fold_other [OF assms(1,2) n g, of "clamp t" "initVars ?n"] False
    show ?thesis
      by (simp add: New_unfold calcStats_def calcLoop_eq Let_def Kingdoms_init)
  qed
qed

lemma New_NamesNum:
  "NamesNum (New om od h t) =
    (if length (extractTaxons h) = 1 then 0 else length (extractTaxons h))"
  by (simp add: New_unfold calcStats_def calcLoop_eq Let_def NamesNum_fold initVars_def
      emptyStats_def)

section \<open>Dominant taxa\<close>

lemma maxCount_Max: "es \<noteq> [] \<Longrightarrow> maxCount es = Max (snd ` set es)"
  by (simp add: maxCount_def max_def Max_ge_iff)

lemma mono_frac: "mono (\<lambda>v::nat. (of_nat v :: rat) / of_nat n)"
  by (simp add: mono_def divide_right_mono)

lemma Percentage_getTaxDist:
  "admissible od \<Longrightarrow>
    Percentage ` set (getTaxDist od n rd) =
      (\<lambda>v. of_nat v / of_nat n) ` (snd ` set (data rd))"
  by (force simp: getTaxDist_def admissible_set case_prod_beta image_iff)

lemma topPercentage_getTaxDist:
  assumes "admissible od" and "data rd \<noteq> []"
  shows "topPercentage (getTaxDist od n rd) = of_nat (maxCount (data rd)) / of_nat n"
proof -
  have "finite (snd ` set (data rd))" and "snd ` set (data rd) \<noteq> {}"
    using assms(2) by simp_all
  from mono_Max_commute [OF mono_frac this, of n]
  show ?thesis
    by (simp add: topPercentage_def Percentage_getTaxDist [OF assms(1)]
        maxCount_Max [OF assms(2)])
qed

lemma attaining_getTaxDist:
  assumes "admissible od" and "data rd \<noteq> []" and "0 < n"
  shows "length (attaining (getTaxDist od n rd)) = length (leaders (data rd))"
proof -
  have "length (attaining (getTaxDist od n rd)) =
      length (filter (\<lambda>e. snd e = maxCount (data rd)) (od (data rd)))"
    using assms(3)
    by (simp add: attaining_def topPercentage_getTaxDist [OF assms(1,2)])
       (simp add: getTaxDist_def length_filter_map comp_def case_prod_beta)
  also have "\<dots> = length (leaders (data rd))"
    by (simp add: length_filter_perm [OF assms(1)] leaders_def)
  finally show ?thesis .
qed

text \<open>
  C2 as amended. Take a bucket of a standard rank that survives pruning, in a run that
  reaches the aggregation. If exactly one entry of its percentage distribution attains
  the largest percentage, then the taxon with that percentage is recorded with its
  percentage in the fields of the rank, provided its name is not empty; when its name is
  empty the fields keep their zero values. If two or more entries attain the largest
  percentage, the taxon field of the rank is the zero taxon and its percentage is 0.
\<close>

theorem dominant_recorded:
  assumes "admissible om" and "admissible od"
    and "rd \<in> set (survivingRanks h)" and "length (extractTaxons h) \<noteq> 1"
    and "standardRank (rank rd)"
  shows "(length (attaining (getTaxDist od (length (extractTaxons h)) rd)) = 1 \<longrightarrow>
      (\<forall>k v. (k, v) \<in> set (data rd) \<and>
          of_nat v / of_nat (length (extractTaxons h)) =
            topPercentage (getTaxDist od (length (extractTaxons h)) rd) \<longrightarrow>
        rankField (rank rd) (New om od h t) =
          (if Name k \<noteq> []
           then (k, topPercentage (getTaxDist od (length (extractTaxons h)) rd))
           else (emptyTaxon, 0)))) \<and>
    (2 \<le> length (attaining (getTaxDist od (length (extractTaxons h)) rd)) \<longrightarrow>
      rankField (rank rd) (New om od h t) = (emptyTaxon, 0))"
proof -
  let ?n = "length (extractTaxons h)"
  let ?ds = "getTaxDist od ?n rd"
  note n = survivingRanks_pos [OF assms(3)]
  from good_survivingRanks [OF assms(3)] have ne: "data rd \<noteq> []"
    by (simp add: goodBucket_def)
  note top = topPercentage_getTaxDist [OF assms(2) ne, of ?n]
  note att = attaining_getTaxDist [OF assms(2) ne n]
  from New_rankField_mem [OF assms(1,2,3,4), of t] assms(5)
  have F: "rankField (rank rd) (New om od h t) = dominant ?n rd" by simp
  have one: "rankField (rank rd) (New om od h t) =
      (if Name k \<noteq> [] then (k, topPercentage ?ds) else (emptyTaxon, 0))"
    if a: "length (attaining ?ds) = 1" and m: "(k, v) \<in> set (data rd)"
      and e: "of_nat v / of_nat ?n = topPercentage ?ds" for k v
  proof -
    from a att have l: "length (leaders (data rd)) = 1" by simp
    from e n have "v = maxCount (data rd)" by (simp add: top)
    with m have "(k, maxCount (data rd)) \<in> set (data rd)" by simp
    from leader_unique [OF l this] have "k = theLeader (data rd)" .
    with l show ?thesis by (simp add: F dominant_def top)
  qed
  have two: "rankField (rank rd) (New om od h t) = (emptyTaxon, 0)"
    if "2 \<le> length (attaining ?ds)"
    using that att by (simp add: F dominant_def)
  from one two show ?thesis by blast
qed

text \<open>
  C2 fails as stated: the kingdom of two names has an empty name. It is the one entry of
  the distribution, so exactly one taxon attains the largest percentage, and the kingdom
  fields of the result stay at their zero values.
\<close>

theorem dominant_recorded_counterexample:
  "anonKingdom \<in> set (survivingRanks [anonA, anonB]) \<and>
   length (extractTaxons [anonA, anonB]) = 2 \<and>
   getTaxDist id 2 anonKingdom = [\<lparr>DistNamesNum = 2, DistName = [], Percentage = 1\<rparr>] \<and>
   length (attaining (getTaxDist id 2 anonKingdom)) = 1 \<and>
   KingdomTaxon (New id id [anonA, anonB] 0) = emptyTaxon \<and>
   KingdomPercentage (New id id [anonA, anonB] 0) = 0 \<and>
   KingdomTaxon (New id id [anonA, anonB] 0) \<noteq>
     \<lparr>ID = ''K'', Name = [], RankStr = ''kingdom'', Rank = Kingdom\<rparr>"
  by code_simp

theorem dominant_recorded_witness:
  "admissible id \<and> plantaeKingdom \<in> set (survivingRanks threeNames) \<and>
   length (extractTaxons threeNames) \<noteq> 1 \<and> standardRank (rank plantaeKingdom) \<and>
   length (attaining (getTaxDist id (length (extractTaxons threeNames)) plantaeKingdom)) = 1 \<and>
   rankField Kingdom (New id id threeNames 0) =
     (\<lparr>ID = ''P'', Name = ''Plantae'', RankStr = ''kingdom'', Rank = Kingdom\<rparr>, 2 / 3)"
proof -
  let ?k = "\<lparr>ID = ''P'', Name = ''Plantae'', RankStr = ''kingdom'', Rank = Kingdom\<rparr>"
  let ?ds = "getTaxDist id (length (extractTaxons threeNames)) plantaeKingdom"
  have m: "plantaeKingdom \<in> set (survivingRanks threeNames)" by code_simp
  have n: "length (extractTaxons threeNames) \<noteq> 1" by code_simp
  have s: "standardRank (rank plantaeKingdom)" by code_simp
  have a: "length (attaining ?ds) = 1" by code_simp
  have e: "(?k, 2) \<in> set (data plantaeKingdom) \<and>
      of_nat 2 / of_nat (length (extractTaxons threeNames)) = topPercentage ?ds"
    by code_simp
  have v: "(if Name ?k \<noteq> [] then (?k, topPercentage ?ds) else (emptyTaxon, 0)) = (?k, 2 / 3)"
    by code_simp
  have r: "rank plantaeKingdom = Kingdom" by code_simp
  from dominant_recorded [OF admissible_id admissible_id m n s, of 0] a e
  have "rankField (rank plantaeKingdom) (New id id threeNames 0) =
      (if Name ?k \<noteq> [] then (?k, topPercentage ?ds) else (emptyTaxon, 0))"
    by blast
  with v r have "rankField Kingdom (New id id threeNames 0) = (?k, 2 / 3)" by simp
  with admissible_id m n s a show ?thesis by blast
qed

section \<open>The list of kingdoms\<close>

text \<open>
  C8 at the four names of \<^verbatim>\<open>TestFiftyFifty\<close>, with threshold 0: the kingdom bucket
  survives pruning with two kingdoms of two names each, its distribution has two entries,
  and the list of kingdoms of the result is empty. The result field is written only in
  the branch of the second \<^verbatim>\<open>switch\<close> that a dominant kingdom reaches. The kingdom and
  the main taxon are empty, as the test expects.
\<close>

theorem Kingdoms_lost_on_tie:
  "map rank (survivingRanks fiftyFifty) =
     [Kingdom, Phylum, Class, SubClass, InfraClass, Order, SubOrder, Family, SubFamily,
      Genus, Species, Unknown] \<and>
   data (hd (survivingRanks fiftyFifty)) =
     [(\<lparr>ID = ''P'', Name = ''Plantae'', RankStr = ''kingdom'', Rank = Kingdom\<rparr>, 2),
      (\<lparr>ID = ''N'', Name = ''Animalia'', RankStr = ''kingdom'', Rank = Kingdom\<rparr>, 2)] \<and>
   getTaxDist id 4 (hd (survivingRanks fiftyFifty)) =
     [\<lparr>DistNamesNum = 2, DistName = ''Plantae'', Percentage = 1 / 2\<rparr>,
      \<lparr>DistNamesNum = 2, DistName = ''Animalia'', Percentage = 1 / 2\<rparr>] \<and>
   NamesNum (New id id fiftyFifty 0) = 4 \<and>
   Kingdoms (New id id fiftyFifty 0) = [] \<and>
   KingdomTaxon (New id id fiftyFifty 0) = emptyTaxon \<and>
   KingdomPercentage (New id id fiftyFifty 0) = 0 \<and>
   MainTaxon (New id id fiftyFifty 0) = emptyTaxon \<and>
   MainTaxonPercentage (New id id fiftyFifty 0) = 0"
  by code_simp

section \<open>The range of the percentages\<close>



















section \<open>Iteration order\<close>

lemma find_cong_set: "(\<forall>x \<in> set xs. P x = Q x) \<Longrightarrow> find P xs = find Q xs"
  by (induction xs) auto

lemma qualifies_order:
  assumes "admissible om" and "admissible om'"
  shows "qualifies om n t rd = qualifies om' n t rd"
  by (simp add: qualifies_def maxTaxon_snd [OF assms(1)] maxTaxon_snd [OF assms(2)])

lemma qualifies_maxCount:
  assumes "admissible om"
  shows "qualifies om n t rd = (Unknown < rank rd \<and> t < of_nat (maxCount (data rd)) / of_nat n)"
  by (simp add: qualifies_def maxTaxon_snd [OF assms])

lemma rankField_order:
  assumes "admissible om" and "admissible od" and "admissible om'" and "admissible od'"
  shows "rankField r (New om od h t) = rankField r (New om' od' h t)"
proof (cases "r \<notin> rank ` set (survivingRanks h) \<or> length (extractTaxons h) = 1")
  case True
  from New_rankField_notin [OF assms(1,2) True] New_rankField_notin [OF assms(3,4) True]
  show ?thesis by simp
next
  case False
  then obtain rd where rd: "rd \<in> set (survivingRanks h)" and r: "rank rd = r"
    and n: "length (extractTaxons h) \<noteq> 1" by auto
  from New_rankField_mem [OF assms(1,2) rd n, of t] New_rankField_mem [OF assms(3,4) rd n, of t] r
  show ?thesis by simp
qed

lemma mset_getTaxDist:
  assumes "admissible od" and "admissible od'"
  shows "mset (getTaxDist od n rd) = mset (getTaxDist od' n rd)"
proof -
  from assms have "mset (od (data rd)) = mset (od' (data rd))"
    by (simp add: admissible_def)
  then show ?thesis
    by (simp add: getTaxDist_def)
qed

lemma Kingdoms_order:
  assumes "admissible om" and "admissible od" and "admissible om'" and "admissible od'"
  shows "mset (Kingdoms (New om od h t)) = mset (Kingdoms (New om' od' h t))"
proof (cases "Kingdom \<notin> rank ` set (survivingRanks h) \<or> length (extractTaxons h) = 1")
  case True
  from New_Kingdoms_notin [OF assms(1,2) True] New_Kingdoms_notin [OF assms(3,4) True]
  show ?thesis by simp
next
  case False
  then obtain rd where rd: "rd \<in> set (survivingRanks h)" and r: "rank rd = Kingdom"
    and n: "length (extractTaxons h) \<noteq> 1" by auto
  from New_Kingdoms_mem [OF assms(1,2) rd n r, of t] New_Kingdoms_mem [OF assms(3,4) rd n r, of t]
    mset_getTaxDist [OF assms(2,4)]
  show ?thesis by simp
qed

lemma main_order:
  assumes "admissible om" and "admissible om'"
  shows "MainTaxonPercentage (New om od h t) = MainTaxonPercentage (New om' od' h t) \<and>
    ((\<forall>rd \<in> set (survivingRanks h).
        Unknown < rank rd \<and>
        clamp t < of_nat (maxCount (data rd)) / of_nat (length (extractTaxons h)) \<longrightarrow>
        length (leaders (data rd)) = 1) \<longrightarrow>
     MainTaxon (New om od h t) = MainTaxon (New om' od' h t))"
proof (cases "length (extractTaxons h) = 1")
  case True
  then show ?thesis by (simp add: New_unfold)
next
  case False
  let ?n = "length (extractTaxons h)"
  let ?S = "survivingRanks h"
  from False have N: "New om od h t = calcStats om od ?n ?S (clamp t)"
    and N': "New om' od' h t = calcStats om' od' ?n ?S (clamp t)"
    by (simp_all add: New_unfold)
  have "\<forall>x \<in> set (rev ?S). qualifies om ?n (clamp t) x = qualifies om' ?n (clamp t) x"
    using qualifies_order [OF assms] by blast
  from find_cong_set [OF this]
  have f: "find (qualifies om ?n (clamp t)) (rev ?S) = find (qualifies om' ?n (clamp t)) (rev ?S)" .
  note M = calcStats_main [of om od ?n ?S "clamp t"]
  note M' = calcStats_main [of om' od' ?n ?S "clamp t"]
  show ?thesis
  proof (cases "find (qualifies om ?n (clamp t)) (rev ?S)")
    case None
    with M M' f N N' show ?thesis by simp
  next
    case (Some rd)
    from find_SomeD [OF Some] have rd: "rd \<in> set ?S" and q: "qualifies om ?n (clamp t) rd"
      by simp_all
    from M Some N have a: "MainTaxon (New om od h t) = fst (maxTaxon om ?n rd)"
      and b: "MainTaxonPercentage (New om od h t) = snd (maxTaxon om ?n rd)"
      by (simp_all add: prod_eq_iff)
    from M' Some f N' have a': "MainTaxon (New om' od' h t) = fst (maxTaxon om' ?n rd)"
      and b': "MainTaxonPercentage (New om' od' h t) = snd (maxTaxon om' ?n rd)"
      by (simp_all add: prod_eq_iff)
    from b b' have P: "MainTaxonPercentage (New om od h t) = MainTaxonPercentage (New om' od' h t)"
      by (simp add: maxTaxon_snd [OF assms(1)] maxTaxon_snd [OF assms(2)])
    have T: "MainTaxon (New om od h t) = MainTaxon (New om' od' h t)"
      if u: "\<forall>rd \<in> set ?S. Unknown < rank rd \<and>
        clamp t < of_nat (maxCount (data rd)) / of_nat ?n \<longrightarrow> length (leaders (data rd)) = 1"
    proof -
      from q have "Unknown < rank rd \<and> clamp t < of_nat (maxCount (data rd)) / of_nat ?n"
        by (simp add: qualifies_maxCount [OF assms(1)])
      with u rd have l: "length (leaders (data rd)) = 1" by blast
      from good_survivingRanks [OF rd] have wf: "wfBucket rd" and ne: "data rd \<noteq> []"
        by (simp_all add: goodBucket_def)
      from maxTaxon_wf [OF assms(1) wf ne l, of ?n] maxTaxon_wf [OF assms(2) wf ne l, of ?n] a a'
      show ?thesis by simp
    qed
    from P T show ?thesis by blast
  qed
qed

text \<open>
  C9 as amended. For given orders of its \<^verbatim>\<open>range\<close> loops \<^verbatim>\<open>New\<close> is a function of the
  input and the threshold. Two runs on the same input and threshold, whatever orders
  their loops follow, agree on \<^verbatim>\<open>NamesNum\<close>, on the taxon and the percentage of each of
  the six ranks and on the percentage of the main taxon, and their lists of kingdoms
  hold the same entries, possibly in another order. They agree on the main taxon as well
  when no surviving comparable bucket whose largest fraction exceeds the clamped
  threshold has two taxa tied at its largest count.
\<close>

theorem New_order_independent:
  assumes "admissible om" and "admissible od" and "admissible om'" and "admissible od'"
  shows "NamesNum (New om od h t) = NamesNum (New om' od' h t) \<and>
    KingdomTaxon (New om od h t) = KingdomTaxon (New om' od' h t) \<and>
    KingdomPercentage (New om od h t) = KingdomPercentage (New om' od' h t) \<and>
    PhylumTaxon (New om od h t) = PhylumTaxon (New om' od' h t) \<and>
    PhylumPercentage (New om od h t) = PhylumPercentage (New om' od' h t) \<and>
    ClassTaxon (New om od h t) = ClassTaxon (New om' od' h t) \<and>
    ClassPercentage (New om od h t) = ClassPercentage (New om' od' h t) \<and>
    OrderTaxon (New om od h t) = OrderTaxon (New om' od' h t) \<and>
    OrderPercentage (New om od h t) = OrderPercentage (New om' od' h t) \<and>
    FamilyTaxon (New om od h t) = FamilyTaxon (New om' od' h t) \<and>
    FamilyPercentage (New om od h t) = FamilyPercentage (New om' od' h t) \<and>
    GenusTaxon (New om od h t) = GenusTaxon (New om' od' h t) \<and>
    GenusPercentage (New om od h t) = GenusPercentage (New om' od' h t) \<and>
    MainTaxonPercentage (New om od h t) = MainTaxonPercentage (New om' od' h t) \<and>
    mset (Kingdoms (New om od h t)) = mset (Kingdoms (New om' od' h t)) \<and>
    ((\<forall>rd \<in> set (survivingRanks h).
        Unknown < rank rd \<and>
        clamp t < of_nat (maxCount (data rd)) / of_nat (length (extractTaxons h)) \<longrightarrow>
        length (leaders (data rd)) = 1) \<longrightarrow>
     MainTaxon (New om od h t) = MainTaxon (New om' od' h t))"
proof -
  note R = rankField_order [OF assms, of _ h t]
  from R [of Kingdom] R [of Phylum] R [of Class] R [of Order] R [of Family] R [of Genus]
  have "KingdomTaxon (New om od h t) = KingdomTaxon (New om' od' h t) \<and>
    KingdomPercentage (New om od h t) = KingdomPercentage (New om' od' h t) \<and>
    PhylumTaxon (New om od h t) = PhylumTaxon (New om' od' h t) \<and>
    PhylumPercentage (New om od h t) = PhylumPercentage (New om' od' h t) \<and>
    ClassTaxon (New om od h t) = ClassTaxon (New om' od' h t) \<and>
    ClassPercentage (New om od h t) = ClassPercentage (New om' od' h t) \<and>
    OrderTaxon (New om od h t) = OrderTaxon (New om' od' h t) \<and>
    OrderPercentage (New om od h t) = OrderPercentage (New om' od' h t) \<and>
    FamilyTaxon (New om od h t) = FamilyTaxon (New om' od' h t) \<and>
    FamilyPercentage (New om od h t) = FamilyPercentage (New om' od' h t) \<and>
    GenusTaxon (New om od h t) = GenusTaxon (New om' od' h t) \<and>
    GenusPercentage (New om od h t) = GenusPercentage (New om' od' h t)"
    by simp
  moreover have "NamesNum (New om od h t) = NamesNum (New om' od' h t)"
    by (simp add: New_NamesNum)
  moreover note main_order [OF assms(1,3), of od h t od']
  moreover note Kingdoms_order [OF assms, of h t]
  ultimately show ?thesis by blast
qed

theorem New_order_independent_witness:
  "admissible id \<and> admissible rev \<and>
   KingdomTaxon (New id id threeNames 0) = KingdomTaxon (New rev rev threeNames 0) \<and>
   mset (Kingdoms (New id id threeNames 0)) = mset (Kingdoms (New rev rev threeNames 0)) \<and>
   list_all (\<lambda>rd. Unknown < rank rd \<and>
        clamp 0 < of_nat (maxCount (data rd)) / of_nat (length (extractTaxons threeNames)) \<longrightarrow>
        length (leaders (data rd)) = 1) (survivingRanks threeNames) \<and>
   MainTaxon (New id id threeNames 0) = MainTaxon (New rev rev threeNames 0) \<and>
   Name (MainTaxon (New id id threeNames 0)) = ''Plantae''"
proof -
  have u: "list_all (\<lambda>rd. Unknown < rank rd \<and>
        clamp 0 < of_nat (maxCount (data rd)) / of_nat (length (extractTaxons threeNames)) \<longrightarrow>
        length (leaders (data rd)) = 1) (survivingRanks threeNames)"
    by code_simp
  then have U: "\<forall>rd \<in> set (survivingRanks threeNames). Unknown < rank rd \<and>
        clamp 0 < of_nat (maxCount (data rd)) / of_nat (length (extractTaxons threeNames)) \<longrightarrow>
        length (leaders (data rd)) = 1"
    by (simp add: list_all_iff)
  have p: "Name (MainTaxon (New id id threeNames 0)) = ''Plantae''" by code_simp
  note T = New_order_independent [OF admissible_id admissible_id admissible_rev admissible_rev,
      of threeNames 0]
  from T have a: "KingdomTaxon (New id id threeNames 0) = KingdomTaxon (New rev rev threeNames 0)"
    by blast
  from T have b: "mset (Kingdoms (New id id threeNames 0)) =
      mset (Kingdoms (New rev rev threeNames 0))" by blast
  from T U have c: "MainTaxon (New id id threeNames 0) = MainTaxon (New rev rev threeNames 0)"
    by blast
  from admissible_id admissible_rev a b u c p show ?thesis by blast
qed

text \<open>
  C9 fails: with the same input and threshold, two admissible orders of the loop in
  \<^verbatim>\<open>getTaxDist\<close> give the list of kingdoms in two orders, and two admissible orders of
  the loop in \<^verbatim>\<open>maxTaxon\<close> give two main taxa when two families are tied above the
  threshold.
\<close>

theorem New_deterministic_counterexample:
  "admissible id \<and> admissible rev \<and>
   Kingdoms (New id id threeNames 0) =
     [\<lparr>DistNamesNum = 2, DistName = ''Plantae'', Percentage = 2 / 3\<rparr>,
      \<lparr>DistNamesNum = 1, DistName = ''Animalia'', Percentage = 1 / 3\<rparr>] \<and>
   Kingdoms (New id rev threeNames 0) =
     [\<lparr>DistNamesNum = 1, DistName = ''Animalia'', Percentage = 1 / 3\<rparr>,
      \<lparr>DistNamesNum = 2, DistName = ''Plantae'', Percentage = 2 / 3\<rparr>] \<and>
   New id id threeNames 0 \<noteq> New id rev threeNames 0 \<and>
   Name (MainTaxon (New id id [tieA, tieB] 0)) = ''Aidae'' \<and>
   Name (MainTaxon (New rev id [tieA, tieB] 0)) = ''Bidae'' \<and>
   New id id [tieA, tieB] 0 \<noteq> New rev id [tieA, tieB] 0"
proof -
  have "Kingdoms (New id id threeNames 0) =
     [\<lparr>DistNamesNum = 2, DistName = ''Plantae'', Percentage = 2 / 3\<rparr>,
      \<lparr>DistNamesNum = 1, DistName = ''Animalia'', Percentage = 1 / 3\<rparr>]"
    by code_simp
  moreover have "Kingdoms (New id rev threeNames 0) =
     [\<lparr>DistNamesNum = 1, DistName = ''Animalia'', Percentage = 1 / 3\<rparr>,
      \<lparr>DistNamesNum = 2, DistName = ''Plantae'', Percentage = 2 / 3\<rparr>]"
    by code_simp
  moreover have "New id id threeNames 0 \<noteq> New id rev threeNames 0"
    by code_simp
  moreover have "Name (MainTaxon (New id id [tieA, tieB] 0)) = ''Aidae''"
    by code_simp
  moreover have "Name (MainTaxon (New rev id [tieA, tieB] 0)) = ''Bidae''"
    by code_simp
  moreover have "New id id [tieA, tieB] 0 \<noteq> New rev id [tieA, tieB] 0"
    by code_simp
  ultimately show ?thesis
    using admissible_id admissible_rev by blast
qed

end
